theory Spec2Isabelle
  imports Main "HOL-Library.Word"
begin

unbundle bit_operations_syntax

section \<open>The task subsystem of kernel/task.c and kernel/syscall.c\<close>

text \<open>
  A shallow embedding of the task table, task creation, fork, kill, sleep and the system
  call dispatcher. The kernel's global variables are the fields of one state record that
  every operation takes and returns. The services of the other kernel files (memory
  allocator, scheduler, console, screen, timer) are not part of the sources at hand: they
  are the fields of a record of functions over an opaque world, a parameter of every
  operation, so that each theorem holds for every implementation of them.
\<close>

subsection \<open>Data\<close>

type_synonym word32 = "32 word"
type_synonym word16 = "16 word"

text \<open>The states of a slot (the enumeration of kernel/task.h).\<close>

datatype task_state = TASK_FREE | TASK_RUNNABLE | TASK_RUNNING | TASK_SLEEP | TASK_STOP

text \<open>
  Modelled from the spec: the declarations of struct PushRegs and struct Trapframe
  (inc/trap.h) are not among the sources; the spec describes the trap frame as the saved
  register, segment and privilege-level state. The records hold the fields that the
  source reads or writes (the six argument registers and eax, the four selectors, esp and
  eip) and the remaining ones of the x86 frame.
\<close>

record PushRegs =
  reg_edi :: word32
  reg_esi :: word32
  reg_ebp :: word32
  reg_oesp :: word32
  reg_ebx :: word32
  reg_edx :: word32
  reg_ecx :: word32
  reg_eax :: word32

record Trapframe =
  tf_regs :: PushRegs
  tf_es :: word16
  tf_ds :: word16
  tf_trapno :: word32
  tf_err :: word32
  tf_eip :: word32
  tf_cs :: word16
  tf_eflags :: word32
  tf_esp :: word32
  tf_ss :: word16

text \<open>
  A task descriptor. \<open>task_id\<close> and \<open>parent_id\<close> are C ints that only ever hold a
  slot index or -1; \<open>remind_ticks\<close> is the 32 bits of an int32_t; \<open>pgdir\<close> is a
  pointer, 0 being NULL.
\<close>

record Task =
  task_id :: int
  parent_id :: int
  tf :: Trapframe
  remind_ticks :: word32
  state :: task_state
  pgdir :: word32

text \<open>
  The globals of kernel/task.c. \<open>tasks\<close> is the array \<open>Task tasks[NR_TASKS]\<close>: its
  length is NR_TASKS. \<open>cur_task\<close> is the pointer to the current task, held as the
  index of the slot it points to, \<open>None\<close> being NULL. \<open>world\<close> is everything behind
  the external services.
\<close>

record 'w kstate =
  tasks :: "Task list"
  cur_task :: "nat option"
  UTEXT_SZ :: word32
  UDATA_SZ :: word32
  UBSS_SZ :: word32
  URODATA_SZ :: word32
  world :: 'w

definition NR_TASKS :: "'w kstate \<Rightarrow> nat" where
  "NR_TASKS s = length (tasks s)"

text \<open>
  The macros and linker symbols of the headers that are not among the sources, taken as
  parameters: the number of each system call (the enumeration of kernel/syscall.h), the
  top and the size of the user stack region, the default quantum, the bounds of the four
  sections of the user program and its entry point.
\<close>

datatype syscall =
    SYS_fork | SYS_getc | SYS_puts | SYS_getpid | SYS_sleep | SYS_kill
  | SYS_get_num_free_page | SYS_get_num_used_page | SYS_get_ticks
  | SYS_settextcolor | SYS_cls | SYS_test

record config =
  sysno :: "syscall \<Rightarrow> word32"
  USTACKTOP :: word32
  USR_STACK_SIZE :: word32
  TIME_QUANT :: word32
  UTEXT_start :: word32
  UTEXT_end :: word32
  UDATA_start :: word32
  UDATA_end :: word32
  UBSS_start :: word32
  UBSS_end :: word32
  URODATA_start :: word32
  URODATA_end :: word32
  user_entry :: word32

text \<open>
  Modelled from the spec: PGSIZE, PTE_W and PTE_U are macros of inc/mmu.h, which is not
  among the sources. The spec fixes a protected-mode x86 kernel with page directories and
  page tables: its page has 4096 bytes, and bits 1 and 2 of a page table entry are the
  writable and the user bit.
\<close>

definition PGSIZE :: nat where
  "PGSIZE = 4096"

definition PTE_W :: word32 where
  "PTE_W = 2"

definition PTE_U :: word32 where
  "PTE_U = 4"

text \<open>
  The user segment selectors, as the comments of the descriptor table give them:
  0x18 is the user code segment and 0x20 the user data segment.
\<close>

definition GD_UT :: word16 where
  "GD_UT = 0x18"

definition GD_UD :: word16 where
  "GD_UD = 0x20"

text \<open>
  How an operation can end without returning: a call of panic, an access to the task
  table outside its bounds (undefined behaviour in C), with the index used, or a loop that
  never ends.
\<close>

datatype fault = Panic string | BadTaskIndex int | Diverges

text \<open>
  The external services, as functions over the world. A pointer result is 0 for NULL.
  \<open>sched_yield\<close> is the scheduler of kernel/sched.c, which reads and writes the task
  table and the current task. \<open>memcpy\<close> is the copy between two addresses of the
  memory (the copy of one trap frame into another is an assignment of the model).
  \<open>read_char\<close> reads the byte at a user address. \<open>tss_gdt_setup\<close> stands for the
  writes of task_init to the task state segment and its descriptor, \<open>load_gdt_ldt_tr\<close>
  for its lgdt, lldt and ltr: tables of the processor, which no operation here reads.
\<close>

record 'w extern =
  setupkvm :: "'w \<Rightarrow> word32 \<times> 'w"
  page_alloc :: "int \<Rightarrow> 'w \<Rightarrow> word32 \<times> 'w"
  page_insert :: "word32 \<Rightarrow> word32 \<Rightarrow> word32 \<Rightarrow> word32 \<Rightarrow> 'w \<Rightarrow> 'w"
  page_lookup :: "word32 \<Rightarrow> word32 \<Rightarrow> 'w \<Rightarrow> word32 \<times> 'w"
  page_remove :: "word32 \<Rightarrow> word32 \<Rightarrow> 'w \<Rightarrow> 'w"
  ptable_remove :: "word32 \<Rightarrow> 'w \<Rightarrow> 'w"
  pgdir_remove :: "word32 \<Rightarrow> 'w \<Rightarrow> 'w"
  page2kva :: "word32 \<Rightarrow> word32"
  PADDR :: "word32 \<Rightarrow> word32"
  kern_pgdir :: "'w \<Rightarrow> word32"
  lcr3 :: "word32 \<Rightarrow> 'w \<Rightarrow> 'w"
  memcpy :: "word32 \<Rightarrow> word32 \<Rightarrow> nat \<Rightarrow> 'w \<Rightarrow> 'w"
  setupvm :: "word32 \<Rightarrow> word32 \<Rightarrow> word32 \<Rightarrow> 'w \<Rightarrow> 'w"
  printk :: "string \<Rightarrow> int list \<Rightarrow> 'w \<Rightarrow> 'w"
  cprintf :: "string \<Rightarrow> int list \<Rightarrow> 'w \<Rightarrow> 'w"
  read_char :: "word32 \<Rightarrow> 'w \<Rightarrow> 8 word"
  k_putch :: "8 word \<Rightarrow> 'w \<Rightarrow> 'w"
  k_getc :: "'w \<Rightarrow> int \<times> 'w"
  sys_get_num_free_page :: "'w \<Rightarrow> int \<times> 'w"
  sys_get_num_used_page :: "'w \<Rightarrow> int \<times> 'w"
  sys_get_ticks :: "'w \<Rightarrow> int \<times> 'w"
  sys_settextcolor :: "8 word \<Rightarrow> 8 word \<Rightarrow> 'w \<Rightarrow> 'w"
  sys_cls :: "'w \<Rightarrow> 'w"
  tss_gdt_setup :: "'w \<Rightarrow> 'w"
  load_gdt_ldt_tr :: "'w \<Rightarrow> 'w"
  sched_yield :: "'w kstate \<Rightarrow> 'w kstate"

subsection \<open>Task creation\<close>

text \<open>
  The scan \<open>for(i = 0; i < NR_TASKS; i++) if (FREE or STOP) break;\<close> from counter
  \<open>i\<close>: the value of \<open>i\<close> when the loop is left.
\<close>

function find_free :: "Task list \<Rightarrow> nat \<Rightarrow> nat" where
  "find_free ts i =
     (if i < length ts
      then (if state (ts ! i) = TASK_FREE \<or> state (ts ! i) = TASK_STOP then i
            else find_free ts (Suc i))
      else i)"
  by pat_completeness auto
termination
  by (relation "measure (\<lambda>(ts, i). length ts - i)") auto

text \<open>
  The loop \<open>for(i = USTACKTOP - USR_STACK_SIZE; i < USTACKTOP; i += PGSIZE)\<close> of
  task_create, from counter \<open>i\<close>: allocate a page and insert it at address \<open>i\<close>, or
  stop at the first allocation that fails. The counter is the 32 bits of the C \<open>int i\<close>:
  the addition wraps around, and the comparison with USTACKTOP is the unsigned one, as for
  an address constant. When USTACKTOP is within a page of the end of the address space
  the counter can wrap past it to a low address and the loop goes on; it need not end, so
  its result is an option: \<open>None\<close> when it runs forever, otherwise whether it ran to its
  end, and the world it leaves.
\<close>

partial_function (option) setup_ustack ::
  "'w extern \<Rightarrow> word32 \<Rightarrow> word32 \<Rightarrow> word32 \<Rightarrow> 'w \<Rightarrow> (bool \<times> 'w) option" where
  "setup_ustack E pg i lim w =
     (if i < lim
      then (case page_alloc E 1 w of
              (ppage, w1) \<Rightarrow>
                if ppage \<noteq> 0
                then setup_ustack E pg (i + of_nat PGSIZE) lim
                       (page_insert E pg ppage i (PTE_U OR PTE_W) w1)
                else Some (False, w1))
      else Some (True, w))"

text \<open>The frame after \<open>memset(&(ts->tf), 0, sizeof(ts->tf))\<close>.\<close>

definition zero_regs :: PushRegs where
  "zero_regs = \<lparr>reg_edi = 0, reg_esi = 0, reg_ebp = 0, reg_oesp = 0,
                 reg_ebx = 0, reg_edx = 0, reg_ecx = 0, reg_eax = 0\<rparr>"

definition zero_tf :: Trapframe where
  "zero_tf = \<lparr>tf_regs = zero_regs, tf_es = 0, tf_ds = 0, tf_trapno = 0, tf_err = 0,
               tf_eip = 0, tf_cs = 0, tf_eflags = 0, tf_esp = 0, tf_ss = 0\<rparr>"

text \<open>
  task_create. The parent id is read through \<open>cur_task\<close> after the slot's own id has
  been written, so it is read from the table as updated. A current-task pointer outside
  the table is an access out of bounds. When the loop over the user stack never ends,
  neither does task_create.
\<close>

definition task_create :: "'w extern \<Rightarrow> config \<Rightarrow> 'w kstate \<Rightarrow> fault + (int \<times> 'w kstate)" where
  "task_create E C s =
     (let i = find_free (tasks s) 0 in
      if i \<ge> NR_TASKS s then Inr (- 1, s)
      else
        (case setupkvm E (world s) of
           (pg, w1) \<Rightarrow>
             if pg = 0
             then Inl (Panic (''Not enough memory for per process page directory!'' @ [CHR 0x0A]))
             else
               (let ts0 = (tasks s ! i)\<lparr>pgdir := pg\<rparr>;
                    w2 = printk E (''pgdir num = %x'' @ [CHR 0x0A]) [uint (PADDR E pg)] w1
                in case setup_ustack E pg (USTACKTOP C - USR_STACK_SIZE C) (USTACKTOP C) w2 of
                     None \<Rightarrow> Inl Diverges
                   | Some (ok, w3) \<Rightarrow>
                       if \<not> ok
                       then Inr (- 1, s\<lparr>tasks := (tasks s)[i := ts0], world := w3\<rparr>)
                       else
                         (let ts1 = ts0\<lparr>tf := zero_tf\<lparr>tf_cs := GD_UT OR 3,
                                                          tf_ds := GD_UD OR 3,
                                                          tf_es := GD_UD OR 3,
                                                          tf_ss := GD_UD OR 3,
                                                          tf_esp := USTACKTOP C - of_nat PGSIZE\<rparr>,
                                         task_id := int i\<rparr>;
                              tab1 = (tasks s)[i := ts1]
                          in case cur_task s of
                               None \<Rightarrow>
                                 Inr (int i,
                                      s\<lparr>tasks := tab1[i := ts1\<lparr>parent_id := - 1,
                                                                remind_ticks := TIME_QUANT C,
                                                                state := TASK_RUNNABLE\<rparr>],
                                        world := w3\<rparr>)
                             | Some c \<Rightarrow>
                                 if c < NR_TASKS s
                                 then Inr (int i,
                                      s\<lparr>tasks := tab1[i := ts1\<lparr>parent_id := task_id (tab1 ! c),
                                                                remind_ticks := TIME_QUANT C,
                                                                state := TASK_RUNNABLE\<rparr>],
                                        world := w3\<rparr>)
                                 else Inl (BadTaskIndex (int c))))))"

subsection \<open>The simple calls\<close>

definition sys_getpid :: "'w kstate \<Rightarrow> fault + int" where
  "sys_getpid s =
     (case cur_task s of
        None \<Rightarrow> Inr (- 1)
      | Some c \<Rightarrow>
          if c < NR_TASKS s then Inr (task_id (tasks s ! c)) else Inl (BadTaskIndex (int c)))"

text \<open>
  sys_sleep. The countdown is \<open>(int32_t) time\<close>: the same 32 bits. The result of the
  call is the state that the scheduler leaves.
\<close>

definition sys_sleep :: "'w extern \<Rightarrow> word32 \<Rightarrow> 'w kstate \<Rightarrow> fault + (int \<times> 'w kstate)" where
  "sys_sleep E time s =
     (case cur_task s of
        None \<Rightarrow> Inl (Panic (''Can't sleep the task'' @ [CHR 0x0A]))
      | Some c \<Rightarrow>
          if \<not> c < NR_TASKS s then Inl (BadTaskIndex (int c))
          else if state (tasks s ! c) = TASK_RUNNING
          then Inr (0, sched_yield E
                         (s\<lparr>tasks := (tasks s)[c := (tasks s ! c)\<lparr>state := TASK_SLEEP,
                                                                  remind_ticks := time\<rparr>]\<rparr>))
          else Inl (Panic (''Can't sleep the task'' @ [CHR 0x0A])))"

subsection \<open>Termination\<close>

text \<open>
  The loop of task_free over the pages of the user stack, from counter \<open>i\<close>, the same
  32-bit counter: \<open>None\<close> when it runs forever.
\<close>

partial_function (option) remove_ustack ::
  "'w extern \<Rightarrow> word32 \<Rightarrow> word32 \<Rightarrow> word32 \<Rightarrow> 'w \<Rightarrow> 'w option" where
  "remove_ustack E pg i lim w =
     (if i < lim
      then remove_ustack E pg (i + of_nat PGSIZE) lim (page_remove E pg i w)
      else Some w)"

definition task_free :: "'w extern \<Rightarrow> config \<Rightarrow> int \<Rightarrow> 'w kstate \<Rightarrow> fault + 'w kstate" where
  "task_free E C pid s =
     (if pid > 0 \<and> pid < int (NR_TASKS s)
      then (let pg = pgdir (tasks s ! nat pid);
                w1 = lcr3 E (PADDR E (kern_pgdir E (world s))) (world s)
            in case remove_ustack E pg (USTACKTOP C - USR_STACK_SIZE C) (USTACKTOP C) w1 of
                 None \<Rightarrow> Inl Diverges
               | Some w2 \<Rightarrow>
                   (let w3 = ptable_remove E pg w2;
                        w4 = pgdir_remove E pg w3
                    in Inr (s\<lparr>world := w4\<rparr>)))
      else Inr s)"

text \<open>sys_kill returns the state that the scheduler leaves, when task_free returns.\<close>

definition sys_kill :: "'w extern \<Rightarrow> config \<Rightarrow> int \<Rightarrow> 'w kstate \<Rightarrow> fault + 'w kstate" where
  "sys_kill E C pid s =
     (if pid > 0 \<and> pid < int (NR_TASKS s)
      then (if state (tasks s ! nat pid) = TASK_FREE \<or> state (tasks s ! nat pid) = TASK_STOP
            then Inr s
            else (case task_free E C pid
                         (s\<lparr>tasks := (tasks s)[nat pid :=
                                        (tasks s ! nat pid)\<lparr>state := TASK_STOP\<rparr>]\<rparr>) of
                    Inl f \<Rightarrow> Inl f
                  | Inr s1 \<Rightarrow> Inr (sched_yield E s1)))
      else Inr s)"

subsection \<open>Fork\<close>

text \<open>
  The loop of sys_fork over the pages of the user stack, from counter \<open>i\<close>, the same
  32-bit counter: look the child's page up and copy the page at the user address \<open>i\<close>
  into it, or stop at the first page that is missing; \<open>None\<close> when it runs forever.
\<close>

partial_function (option) copy_ustack ::
  "'w extern \<Rightarrow> word32 \<Rightarrow> word32 \<Rightarrow> word32 \<Rightarrow> 'w \<Rightarrow> (bool \<times> 'w) option" where
  "copy_ustack E pg i lim w =
     (if i < lim
      then (case page_lookup E pg i w of
              (ppageNew, w1) \<Rightarrow>
                if ppageNew \<noteq> 0
                then copy_ustack E pg (i + of_nat PGSIZE) lim
                       (memcpy E (page2kva E ppageNew) i PGSIZE w1)
                else Some (False, w1))
      else Some (True, w))"

text \<open>The four calls of setupvm for the sections of the user program.\<close>

definition setup_user_vm :: "'w extern \<Rightarrow> config \<Rightarrow> 'w kstate \<Rightarrow> word32 \<Rightarrow> 'w \<Rightarrow> 'w" where
  "setup_user_vm E C s pg w =
     setupvm E pg (URODATA_start C) (URODATA_SZ s)
       (setupvm E pg (UBSS_start C) (UBSS_SZ s)
          (setupvm E pg (UDATA_start C) (UDATA_SZ s)
             (setupvm E pg (UTEXT_start C) (UTEXT_SZ s) w)))"

text \<open>
  sys_fork. The test \<open>if(!(pid = task_create()))\<close> returns -1 when task_create gave 0;
  any other value, -1 too, goes on to \<open>&(tasks[pid])\<close>.
\<close>

definition sys_fork :: "'w extern \<Rightarrow> config \<Rightarrow> 'w kstate \<Rightarrow> fault + (int \<times> 'w kstate)" where
  "sys_fork E C s =
     (case cur_task s of
        None \<Rightarrow> Inr (- 1, s)
      | Some c \<Rightarrow>
          (case task_create E C s of
             Inl f \<Rightarrow> Inl f
           | Inr (pid, s1) \<Rightarrow>
               if pid = 0 then Inr (- 1, s1)
               else if \<not> (0 \<le> pid \<and> pid < int (NR_TASKS s1)) then Inl (BadTaskIndex pid)
               else if \<not> c < NR_TASKS s1 then Inl (BadTaskIndex (int c))
               else
                 (let child = nat pid;
                      tab2 = (tasks s1)[child := (tasks s1 ! child)\<lparr>tf := tf (tasks s1 ! c)\<rparr>]
                  in case copy_ustack E (pgdir (tab2 ! child))
                            (USTACKTOP C - USR_STACK_SIZE C) (USTACKTOP C) (world s1) of
                       None \<Rightarrow> Inl Diverges
                     | Some (ok, w1) \<Rightarrow>
                         if \<not> ok then Inr (- 1, s1\<lparr>tasks := tab2, world := w1\<rparr>)
                         else
                           (let w2 = setup_user_vm E C s1 (pgdir (tab2 ! child)) w1;
                                ctf = tf (tab2 ! child);
                                tab3 = tab2[child := (tab2 ! child)
                                          \<lparr>tf := ctf\<lparr>tf_regs := (tf_regs ctf)\<lparr>reg_eax := 0\<rparr>\<rparr>\<rparr>]
                            in Inr (pid, s1\<lparr>tasks := tab3, world := w2\<rparr>)))))"

subsection \<open>Initialisation\<close>

text \<open>
  A descriptor after \<open>memset(&(tasks[i]), 0, sizeof(Task))\<close> and the assignment of
  TASK_FREE, and the loop of task_init over the table, from counter \<open>i\<close>.
\<close>

definition free_task :: Task where
  "free_task = \<lparr>task_id = 0, parent_id = 0, tf = zero_tf, remind_ticks = 0,
                 state = TASK_FREE, pgdir = 0\<rparr>"

function init_tasks :: "Task list \<Rightarrow> nat \<Rightarrow> Task list" where
  "init_tasks ts i =
     (if i < length ts then init_tasks (ts[i := free_task]) (Suc i) else ts)"
  by pat_completeness auto
termination
  by (relation "measure (\<lambda>(ts, i). length ts - i)") auto

text \<open>
  task_init. The task state segment and its descriptor are written before the first task
  is created, and the descriptor tables are loaded after it: two operations on the world.
  When task_create gives -1, \<open>cur_task = &(tasks[i])\<close> points outside the table and the
  next statement reads through it.
\<close>

definition task_init :: "'w extern \<Rightarrow> config \<Rightarrow> 'w kstate \<Rightarrow> fault + 'w kstate" where
  "task_init E C s =
     (let s1 = s\<lparr>UTEXT_SZ := UTEXT_end C - UTEXT_start C,
                  UDATA_SZ := UDATA_end C - UDATA_start C,
                  UBSS_SZ := UBSS_end C - UBSS_start C,
                  URODATA_SZ := URODATA_end C - URODATA_start C\<rparr>;
          s2 = s1\<lparr>tasks := init_tasks (tasks s1) 0\<rparr>;
          s3 = s2\<lparr>world := tss_gdt_setup E (world s2)\<rparr>
      in case task_create E C s3 of
           Inl f \<Rightarrow> Inl f
         | Inr (i, s4) \<Rightarrow>
             if \<not> (0 \<le> i \<and> i < int (NR_TASKS s4)) then Inl (BadTaskIndex i)
             else
               (let c = nat i;
                    t = tasks s4 ! c;
                    w1 = printk E (''first task id = %d parent id = %d'' @ [CHR 0x0A])
                           [task_id t, parent_id t] (world s4);
                    w2 = setup_user_vm E C s4 (pgdir t) w1;
                    t1 = t\<lparr>tf := (tf t)\<lparr>tf_eip := user_entry C\<rparr>\<rparr>;
                    w3 = load_gdt_ldt_tr E w2
                in Inr (s4\<lparr>tasks := (tasks s4)[c := t1\<lparr>state := TASK_RUNNING\<rparr>],
                           cur_task := Some c, world := w3\<rparr>)))"

subsection \<open>The dispatcher\<close>

function do_puts :: "'w extern \<Rightarrow> word32 \<Rightarrow> nat \<Rightarrow> nat \<Rightarrow> 'w \<Rightarrow> 'w" where
  "do_puts E str i len w =
     (if i < len
      then do_puts E str (Suc i) len (k_putch E (read_char E (str + of_nat i) w) w)
      else w)"
  by pat_completeness auto
termination
  by (relation "measure (\<lambda>(E, str, i, len, w). len - i)") auto

definition do_getc :: "'w extern \<Rightarrow> 'w \<Rightarrow> int \<times> 'w" where
  "do_getc E w = k_getc E w"

text \<open>
  The switch of do_syscall: the first case label, in the order of the source, whose number
  is the call number, if there is one.
\<close>

definition case_labels :: "syscall list" where
  "case_labels = [SYS_fork, SYS_getc, SYS_puts, SYS_getpid, SYS_sleep, SYS_kill,
                  SYS_get_num_free_page, SYS_get_num_used_page, SYS_get_ticks,
                  SYS_settextcolor, SYS_cls, SYS_test]"

definition switch_case :: "config \<Rightarrow> word32 \<Rightarrow> syscall option" where
  "switch_case C syscallno = find (\<lambda>l. sysno C l = syscallno) case_labels"

text \<open>
  do_syscall. \<open>retVal\<close> starts as -1 and stays so when no case matches. The argument of
  sys_kill is the first argument read as an int; the kill case returns 0 when sys_kill
  returns.
\<close>

definition do_syscall ::
  "'w extern \<Rightarrow> config \<Rightarrow> word32 \<Rightarrow> word32 \<Rightarrow> word32 \<Rightarrow> word32 \<Rightarrow> word32 \<Rightarrow> word32 \<Rightarrow>
   'w kstate \<Rightarrow> fault + (int \<times> 'w kstate)" where
  "do_syscall E C syscallno a1 a2 a3 a4 a5 s =
     (case switch_case C syscallno of
        None \<Rightarrow> Inr (- 1, s)
      | Some SYS_fork \<Rightarrow> sys_fork E C s
      | Some SYS_getc \<Rightarrow>
          (case do_getc E (world s) of (r, w) \<Rightarrow> Inr (r, s\<lparr>world := w\<rparr>))
      | Some SYS_puts \<Rightarrow> Inr (0, s\<lparr>world := do_puts E a1 0 (unat a2) (world s)\<rparr>)
      | Some SYS_getpid \<Rightarrow>
          (case sys_getpid s of Inl f \<Rightarrow> Inl f | Inr r \<Rightarrow> Inr (r, s))
      | Some SYS_sleep \<Rightarrow> sys_sleep E a1 s
      | Some SYS_kill \<Rightarrow>
          (case sys_kill E C (sint a1)
                  (s\<lparr>world := cprintf E (''Going to kill pid = %d'' @ [CHR 0x0A]) [uint a1]
                                 (world s)\<rparr>) of
             Inl f \<Rightarrow> Inl f
           | Inr s1 \<Rightarrow> Inr (0, s1))
      | Some SYS_get_num_free_page \<Rightarrow>
          (case sys_get_num_free_page E (world s) of (r, w) \<Rightarrow> Inr (r, s\<lparr>world := w\<rparr>))
      | Some SYS_get_num_used_page \<Rightarrow>
          (case sys_get_num_used_page E (world s) of (r, w) \<Rightarrow> Inr (r, s\<lparr>world := w\<rparr>))
      | Some SYS_get_ticks \<Rightarrow>
          (case sys_get_ticks E (world s) of (r, w) \<Rightarrow> Inr (r, s\<lparr>world := w\<rparr>))
      | Some SYS_settextcolor \<Rightarrow>
          Inr (0, s\<lparr>world := sys_settextcolor E (ucast a1) (ucast a2) (world s)\<rparr>)
      | Some SYS_cls \<Rightarrow> Inr (0, s\<lparr>world := sys_cls E (world s)\<rparr>)
      | Some SYS_test \<Rightarrow> Inr (12345678, s))"

subsection \<open>Notions used in the statements\<close>

text \<open>A slot that task_create may claim.\<close>

definition slot_free :: "Task \<Rightarrow> bool" where
  "slot_free t = (state t = TASK_FREE \<or> state t = TASK_STOP)"

definition count_runnable :: "Task list \<Rightarrow> nat" where
  "count_runnable ts = length (filter (\<lambda>t. state t = TASK_RUNNABLE) ts)"

text \<open>The bounds of the user stack region, as numbers.\<close>

definition ustack_base :: "config \<Rightarrow> nat" where
  "ustack_base C = unat (USTACKTOP C - USR_STACK_SIZE C)"

definition ustack_top :: "config \<Rightarrow> nat" where
  "ustack_top C = unat (USTACKTOP C)"

text \<open>
  The counter of the loops over the user stack cannot wrap around: USTACKTOP is at least
  a page below the end of the 32-bit address space.
\<close>

definition no_wrap :: "config \<Rightarrow> bool" where
  "no_wrap C = (ustack_top C + PGSIZE \<le> 2 ^ 32)"

text \<open>
  The addresses from \<open>i\<close> below \<open>lim\<close>, a page apart, in order: those that the header
  \<open>for(i = USTACKTOP - USR_STACK_SIZE; i < USTACKTOP; i += PGSIZE)\<close> visits when its
  counter does not wrap around.
\<close>

function va_range :: "nat \<Rightarrow> nat \<Rightarrow> nat list" where
  "va_range i lim = (if i < lim then i # va_range (i + PGSIZE) lim else [])"
  by pat_completeness auto
termination
  by (relation "measure (\<lambda>(i, lim). lim - i)") (auto simp: PGSIZE_def)

definition stack_vas :: "config \<Rightarrow> nat list" where
  "stack_vas C = va_range (ustack_base C) (ustack_top C)"

text \<open>
  Mapping a fresh page at each address of a list, in order: every page is allocated and
  inserted, user-accessible and writable, until an allocation fails.
\<close>

primrec map_pages :: "'w extern \<Rightarrow> word32 \<Rightarrow> nat list \<Rightarrow> 'w \<Rightarrow> bool \<times> 'w" where
  "map_pages E pg [] w = (True, w)"
| "map_pages E pg (va # vas) w =
     (case page_alloc E 1 w of
        (ppage, w1) \<Rightarrow>
          if ppage \<noteq> 0
          then map_pages E pg vas (page_insert E pg ppage (of_nat va) (PTE_U OR PTE_W) w1)
          else (False, w1))"

text \<open>
  Copying the page at each address of a list into the page found there in a page
  directory, in order, until a page is missing.
\<close>

primrec copy_pages :: "'w extern \<Rightarrow> word32 \<Rightarrow> nat list \<Rightarrow> 'w \<Rightarrow> bool \<times> 'w" where
  "copy_pages E pg [] w = (True, w)"
| "copy_pages E pg (va # vas) w =
     (case page_lookup E pg (of_nat va) w of
        (ppageNew, w1) \<Rightarrow>
          if ppageNew \<noteq> 0
          then copy_pages E pg vas (memcpy E (page2kva E ppageNew) (of_nat va) PGSIZE w1)
          else (False, w1))"

text \<open>Removing the page at each address of a list, in order.\<close>

primrec remove_pages :: "'w extern \<Rightarrow> word32 \<Rightarrow> nat list \<Rightarrow> 'w \<Rightarrow> 'w" where
  "remove_pages E pg [] w = w"
| "remove_pages E pg (va # vas) w = remove_pages E pg vas (page_remove E pg (of_nat va) w)"

text \<open>The world in which task_create starts to map the user stack.\<close>

definition after_setupkvm :: "'w extern \<Rightarrow> 'w \<Rightarrow> 'w" where
  "after_setupkvm E w =
     printk E (''pgdir num = %x'' @ [CHR 0x0A]) [uint (PADDR E (fst (setupkvm E w)))]
       (snd (setupkvm E w))"

text \<open>
  The allocations of a task creation that starts in world \<open>w\<close> succeed: the page
  directory and every page of the user stack. The world that such a creation leaves. The
  copy of a fork that starts in world \<open>w\<close> finds every page of the child's user stack.
\<close>

definition can_create :: "'w extern \<Rightarrow> config \<Rightarrow> 'w \<Rightarrow> bool" where
  "can_create E C w =
     (fst (setupkvm E w) \<noteq> 0 \<and>
      fst (map_pages E (fst (setupkvm E w)) (stack_vas C) (after_setupkvm E w)))"

definition create_world :: "'w extern \<Rightarrow> config \<Rightarrow> 'w \<Rightarrow> 'w" where
  "create_world E C w =
     snd (map_pages E (fst (setupkvm E w)) (stack_vas C) (after_setupkvm E w))"

definition can_copy :: "'w extern \<Rightarrow> config \<Rightarrow> 'w \<Rightarrow> bool" where
  "can_copy E C w =
     fst (copy_pages E (fst (setupkvm E w)) (stack_vas C) (create_world E C w))"

text \<open>The state in which sys_kill hands over to the scheduler.\<close>

definition killed :: "'w extern \<Rightarrow> config \<Rightarrow> nat \<Rightarrow> 'w kstate \<Rightarrow> 'w kstate" where
  "killed E C p s =
     s\<lparr>tasks := (tasks s)[p := (tasks s ! p)\<lparr>state := TASK_STOP\<rparr>],
       world := pgdir_remove E (pgdir (tasks s ! p))
                  (ptable_remove E (pgdir (tasks s ! p))
                     (remove_pages E (pgdir (tasks s ! p)) (stack_vas C)
                        (lcr3 E (PADDR E (kern_pgdir E (world s))) (world s))))\<rparr>"

text \<open>The frame that task_create sets up.\<close>

definition user_tf :: "config \<Rightarrow> Trapframe" where
  "user_tf C = zero_tf\<lparr>tf_cs := GD_UT OR 3, tf_ds := GD_UD OR 3, tf_es := GD_UD OR 3,
                        tf_ss := GD_UD OR 3, tf_esp := USTACKTOP C - of_nat PGSIZE\<rparr>"

text \<open>
  The descriptor that task_create leaves in slot \<open>i\<close> when it succeeds, with page
  directory \<open>pg\<close>. When the current task's slot is the slot claimed, its id has just
  been overwritten with \<open>i\<close>.
\<close>

definition created :: "config \<Rightarrow> 'w kstate \<Rightarrow> nat \<Rightarrow> word32 \<Rightarrow> Task" where
  "created C s i pg =
     (tasks s ! i)
       \<lparr>pgdir := pg, tf := user_tf C, task_id := int i,
        parent_id := (case cur_task s of
                        None \<Rightarrow> - 1
                      | Some c \<Rightarrow> if c = i then int i else task_id (tasks s ! c)),
        remind_ticks := TIME_QUANT C, state := TASK_RUNNABLE\<rparr>"

text \<open>The current-task pointer is NULL or points into the table.\<close>

definition cur_valid :: "'w kstate \<Rightarrow> bool" where
  "cur_valid s = (case cur_task s of None \<Rightarrow> True | Some c \<Rightarrow> c < NR_TASKS s)"

subsection \<open>A simulation of the external services\<close>

text \<open>
  Modelled from the spec: the Address-Space Service, the Scheduler, the console, the
  screen and the timer of section 6 are not among the sources. This instance is the
  simplest one with their interface, used to run the operations on concrete states: a
  counter of free frames, the list of the pages mapped (page directory, address, page)
  and the log of the calls made. A page directory and a page each take one frame;
  allocation fails when no frame is left; the scheduler leaves the table as it is.
\<close>

datatype call =
    Call_page_insert word32 word32 word32 word32
  | Call_page_remove word32 word32
  | Call_ptable_remove word32
  | Call_pgdir_remove word32
  | Call_lcr3 word32
  | Call_memcpy word32 word32 nat
  | Call_setupvm word32 word32 word32
  | Call_print string "int list"
  | Call_putch "8 word"
  | Call_settextcolor "8 word" "8 word"
  | Call_cls
  | Call_tss_gdt_setup
  | Call_load_gdt_ldt_tr
  | Call_sched_yield

record sim =
  frames :: nat
  mapped :: "((word32 \<times> word32) \<times> word32) list"
  calls :: "call list"

definition sim_alloc :: "sim \<Rightarrow> word32 \<times> sim" where
  "sim_alloc w =
     (if frames w = 0 then (0, w)
      else (0xF0000000 + 0x1000 * of_nat (frames w), w\<lparr>frames := frames w - 1\<rparr>))"

definition sim_log :: "call \<Rightarrow> sim \<Rightarrow> sim" where
  "sim_log c w = w\<lparr>calls := calls w @ [c]\<rparr>"

definition sim_extern :: "sim extern" where
  "sim_extern =
     \<lparr>setupkvm = sim_alloc,
      page_alloc = (\<lambda>flags. sim_alloc),
      page_insert = (\<lambda>pg pp va perm w.
         sim_log (Call_page_insert pg pp va perm) (w\<lparr>mapped := ((pg, va), pp) # mapped w\<rparr>)),
      page_lookup = (\<lambda>pg va w.
         (case map_of (mapped w) (pg, va) of None \<Rightarrow> 0 | Some pp \<Rightarrow> pp, w)),
      page_remove = (\<lambda>pg va w.
         sim_log (Call_page_remove pg va)
           (w\<lparr>mapped := filter (\<lambda>m. fst m \<noteq> (pg, va)) (mapped w)\<rparr>)),
      ptable_remove = (\<lambda>pg. sim_log (Call_ptable_remove pg)),
      pgdir_remove = (\<lambda>pg. sim_log (Call_pgdir_remove pg)),
      page2kva = (\<lambda>pp. pp),
      PADDR = (\<lambda>kva. kva - 0xF0000000),
      kern_pgdir = (\<lambda>w. 0xF0000000),
      lcr3 = (\<lambda>pa. sim_log (Call_lcr3 pa)),
      memcpy = (\<lambda>dst src n. sim_log (Call_memcpy dst src n)),
      setupvm = (\<lambda>pg start sz. sim_log (Call_setupvm pg start sz)),
      printk = (\<lambda>fmt args. sim_log (Call_print fmt args)),
      cprintf = (\<lambda>fmt args. sim_log (Call_print fmt args)),
      read_char = (\<lambda>a w. 0),
      k_putch = (\<lambda>c. sim_log (Call_putch c)),
      k_getc = (\<lambda>w. (- 1, w)),
      sys_get_num_free_page = (\<lambda>w. (int (frames w), w)),
      sys_get_num_used_page = (\<lambda>w. (int (length (mapped w)), w)),
      sys_get_ticks = (\<lambda>w. (0, w)),
      sys_settextcolor = (\<lambda>fg bg. sim_log (Call_settextcolor fg bg)),
      sys_cls = sim_log Call_cls,
      tss_gdt_setup = sim_log Call_tss_gdt_setup,
      load_gdt_ldt_tr = sim_log Call_load_gdt_ldt_tr,
      sched_yield = (\<lambda>s. s\<lparr>world := sim_log Call_sched_yield (world s)\<rparr>)\<rparr>"

text \<open>
  A configuration for the runs: a user stack of two pages below 0xEEBFE000, system calls
  numbered in the order of the dispatcher's cases.
\<close>

definition sim_sysno :: "syscall \<Rightarrow> word32" where
  "sim_sysno l =
     (case l of SYS_fork \<Rightarrow> 0 | SYS_getc \<Rightarrow> 1 | SYS_puts \<Rightarrow> 2 | SYS_getpid \<Rightarrow> 3
      | SYS_sleep \<Rightarrow> 4 | SYS_kill \<Rightarrow> 5 | SYS_get_num_free_page \<Rightarrow> 6
      | SYS_get_num_used_page \<Rightarrow> 7 | SYS_get_ticks \<Rightarrow> 8 | SYS_settextcolor \<Rightarrow> 9
      | SYS_cls \<Rightarrow> 10 | SYS_test \<Rightarrow> 11)"

definition sim_config :: config where
  "sim_config =
     \<lparr>sysno = sim_sysno, USTACKTOP = 0xEEBFE000, USR_STACK_SIZE = 0x2000, TIME_QUANT = 100,
      UTEXT_start = 0x800000, UTEXT_end = 0x801000,
      UDATA_start = 0x801000, UDATA_end = 0x802000,
      UBSS_start = 0x802000, UBSS_end = 0x803000,
      URODATA_start = 0x803000, URODATA_end = 0x804000,
      user_entry = 0x800020\<rparr>"

text \<open>
  A configuration whose user stack ends one byte above the last page boundary of the
  address space: the counter of the loops steps from 0xFFFFF000 to 0.
\<close>

definition wrap_config :: config where
  "wrap_config = sim_config\<lparr>USTACKTOP := 0xFFFFF001, USR_STACK_SIZE := 0x1001\<rparr>"

text \<open>The state at boot: a table of \<open>n\<close> zeroed slots and no current task.\<close>

definition boot_state :: "nat \<Rightarrow> 'w \<Rightarrow> 'w kstate" where
  "boot_state n w =
     \<lparr>tasks = replicate n free_task, cur_task = None, UTEXT_SZ = 0, UDATA_SZ = 0,
      UBSS_SZ = 0, URODATA_SZ = 0, world = w\<rparr>"

definition sim_world :: "nat \<Rightarrow> sim" where
  "sim_world n = \<lparr>frames = n, mapped = [], calls = []\<rparr>"

text \<open>A task in a given state, with a page directory of its own, and a table of such.\<close>

definition live_task :: "int \<Rightarrow> task_state \<Rightarrow> Task" where
  "live_task n st =
     \<lparr>task_id = n, parent_id = - 1,
      tf = zero_tf\<lparr>tf_regs := zero_regs\<lparr>reg_edx := 7, reg_eax := 3\<rparr>,
                   tf_eip := 0x800020, tf_esp := 0xEEBFDFF0\<rparr>,
      remind_ticks = 100, state = st, pgdir = 0xF0100000 + 0x1000 * word_of_int n\<rparr>"

definition full_state :: "sim kstate" where
  "full_state =
     \<lparr>tasks = [live_task 0 TASK_RUNNING, live_task 1 TASK_RUNNABLE, live_task 2 TASK_SLEEP],
      cur_task = Some 0, UTEXT_SZ = 0x1000, UDATA_SZ = 0x1000, UBSS_SZ = 0x1000,
      URODATA_SZ = 0x1000, world = sim_world 8\<rparr>"

text \<open>
  A table with a running task, a stopped slot and a free slot, the first being current.
\<close>

definition mixed_state :: "sim kstate" where
  "mixed_state =
     \<lparr>tasks = [live_task 0 TASK_RUNNING, live_task 1 TASK_STOP, live_task 2 TASK_FREE],
      cur_task = Some 0, UTEXT_SZ = 0x1000, UDATA_SZ = 0x1000, UBSS_SZ = 0x1000,
      URODATA_SZ = 0x1000, world = sim_world 8\<rparr>"

text \<open>The same table with one frame left, and with none.\<close>

definition low_memory_state :: "sim kstate" where
  "low_memory_state = mixed_state\<lparr>world := sim_world 1\<rparr>"

definition no_memory_state :: "sim kstate" where
  "no_memory_state = mixed_state\<lparr>world := sim_world 0\<rparr>"

section \<open>Properties\<close>

text \<open>
  The equations of the loops that always end are unfolded by hand, as those of the loops
  over the user stack are: each is an equation of a function in terms of itself.
\<close>

declare find_free.simps [simp del]
declare init_tasks.simps [simp del]
declare do_puts.simps [simp del]
declare va_range.simps [simp del]

subsection \<open>The loops\<close>

lemma find_free_slot: "find_free ts i < length ts \<Longrightarrow> slot_free (ts ! find_free ts i)"
proof (induction ts i rule: find_free.induct)
  case (1 ts i)
  show ?case
  proof (cases "i < length ts \<and> \<not> slot_free (ts ! i)")
    case True
    then have eq: "find_free ts i = find_free ts (Suc i)"
      by (subst find_free.simps) (simp add: slot_free_def)
    with 1 True show ?thesis by (simp add: slot_free_def)
  next
    case False
    then have "find_free ts i = i"
      by (subst find_free.simps) (auto simp: slot_free_def)
    with 1(2) False show ?thesis by auto
  qed
qed

lemma find_free_least: "i \<le> j \<Longrightarrow> j < find_free ts i \<Longrightarrow> \<not> slot_free (ts ! j)"
proof (induction ts i rule: find_free.induct)
  case (1 ts i)
  show ?case
  proof (cases "i < length ts \<and> \<not> slot_free (ts ! i)")
    case True
    then have eq: "find_free ts i = find_free ts (Suc i)"
      by (subst find_free.simps) (simp add: slot_free_def)
    show ?thesis
    proof (cases "j = i")
      case True
      with \<open>i < length ts \<and> \<not> slot_free (ts ! i)\<close> show ?thesis by simp
    next
      case False
      with 1(2) have "Suc i \<le> j" by simp
      with 1 True eq show ?thesis by (simp add: slot_free_def)
    qed
  next
    case False
    then have "find_free ts i = i"
      by (subst find_free.simps) (auto simp: slot_free_def)
    with 1(2,3) show ?thesis by simp
  qed
qed

lemma find_free_none:
  "(length ts \<le> find_free ts 0) = (\<forall>j < length ts. \<not> slot_free (ts ! j))"
proof
  assume "length ts \<le> find_free ts 0"
  then show "\<forall>j < length ts. \<not> slot_free (ts ! j)"
    using find_free_least [of 0 _ ts] by auto
next
  assume none: "\<forall>j < length ts. \<not> slot_free (ts ! j)"
  show "length ts \<le> find_free ts 0"
  proof (rule ccontr)
    assume "\<not> length ts \<le> find_free ts 0"
    then have "find_free ts 0 < length ts" by simp
    with find_free_slot [of ts 0] none show False by blast
  qed
qed

lemma slot_free_ex:
  "(\<exists>j < NR_TASKS s. slot_free (tasks s ! j)) = (find_free (tasks s) 0 < NR_TASKS s)"
  using find_free_none [of "tasks s"] by (auto simp: NR_TASKS_def)

lemma unat_of_nat_word32: "i < 2 ^ 32 \<Longrightarrow> unat (of_nat i :: word32) = i"
  by (simp add: unat_of_nat)

lemma ustack_base_word: "of_nat (ustack_base C) = USTACKTOP C - USR_STACK_SIZE C"
  by (simp add: ustack_base_def)

lemma ustack_base_less: "ustack_base C < 2 ^ 32"
  using unsigned_less [of "USTACKTOP C - USR_STACK_SIZE C", where ?'a = nat]
  by (simp add: ustack_base_def)

lemma va_range_Cons: "i < n \<Longrightarrow> va_range i n = i # va_range (i + PGSIZE) n"
  by (subst va_range.simps) simp

lemma va_range_Nil: "\<not> i < n \<Longrightarrow> va_range i n = []"
  by (subst va_range.simps) simp

lemma setup_ustack_ok_aux:
  "n = unat lim \<Longrightarrow> n + PGSIZE \<le> 2 ^ 32 \<Longrightarrow> i < 2 ^ 32 \<Longrightarrow>
   setup_ustack E pg (of_nat i) lim w = Some (map_pages E pg (va_range i n) w)"
proof (induction i n arbitrary: w rule: va_range.induct)
  case (1 i n)
  have cmp: "((of_nat i :: word32) < lim) = (i < n)"
    using 1(2,4) by (simp add: word_less_nat_alt unat_of_nat_word32)
  show ?case
  proof (cases "i < n")
    case True
    then have nx: "i + PGSIZE < 2 ^ 32" using 1(3) by simp
    obtain ppage w1 where pa: "page_alloc E 1 w = (ppage, w1)"
      by (cases "page_alloc E 1 w")
    show ?thesis
    proof (cases "ppage = 0")
      case True
      with \<open>i < n\<close> pa cmp show ?thesis
        by (subst setup_ustack.simps) (simp add: va_range_Cons)
    next
      case False
      with \<open>i < n\<close> pa cmp 1(1) [OF \<open>i < n\<close> 1(2,3) nx] show ?thesis
        by (subst setup_ustack.simps) (simp add: va_range_Cons)
    qed
  next
    case False
    with cmp show ?thesis
      by (subst setup_ustack.simps) (simp add: va_range_Nil)
  qed
qed


lemma setup_ustack_ok:
  "no_wrap C \<Longrightarrow>
   setup_ustack E pg (USTACKTOP C - USR_STACK_SIZE C) (USTACKTOP C) w =
     Some (map_pages E pg (stack_vas C) w)"
  using setup_ustack_ok_aux [of "ustack_top C" "USTACKTOP C" "ustack_base C" E pg w]
    ustack_base_less [of C]
  by (simp add: no_wrap_def ustack_top_def ustack_base_word stack_vas_def)


lemma copy_ustack_ok_aux:
  "n = unat lim \<Longrightarrow> n + PGSIZE \<le> 2 ^ 32 \<Longrightarrow> i < 2 ^ 32 \<Longrightarrow>
   copy_ustack E pg (of_nat i) lim w = Some (copy_pages E pg (va_range i n) w)"
proof (induction i n arbitrary: w rule: va_range.induct)
  case (1 i n)
  have cmp: "((of_nat i :: word32) < lim) = (i < n)"
    using 1(2,4) by (simp add: word_less_nat_alt unat_of_nat_word32)
  show ?case
  proof (cases "i < n")
    case True
    then have nx: "i + PGSIZE < 2 ^ 32" using 1(3) by simp
    obtain ppage w1 where pa: "page_lookup E pg (of_nat i) w = (ppage, w1)"
      by (cases "page_lookup E pg (of_nat i) w")
    show ?thesis
    proof (cases "ppage = 0")
      case True
      with \<open>i < n\<close> pa cmp show ?thesis
        by (subst copy_ustack.simps) (simp add: va_range_Cons)
    next
      case False
      with \<open>i < n\<close> pa cmp 1(1) [OF \<open>i < n\<close> 1(2,3) nx] show ?thesis
        by (subst copy_ustack.simps) (simp add: va_range_Cons)
    qed
  next
    case False
    with cmp show ?thesis
      by (subst copy_ustack.simps) (simp add: va_range_Nil)
  qed
qed

lemma copy_ustack_ok:
  "no_wrap C \<Longrightarrow>
   copy_ustack E pg (USTACKTOP C - USR_STACK_SIZE C) (USTACKTOP C) w =
     Some (copy_pages E pg (stack_vas C) w)"
  using copy_ustack_ok_aux [of "ustack_top C" "USTACKTOP C" "ustack_base C" E pg w]
    ustack_base_less [of C]
  by (simp add: no_wrap_def ustack_top_def ustack_base_word stack_vas_def)

lemma remove_ustack_ok_aux:
  "n = unat lim \<Longrightarrow> n + PGSIZE \<le> 2 ^ 32 \<Longrightarrow> i < 2 ^ 32 \<Longrightarrow>
   remove_ustack E pg (of_nat i) lim w = Some (remove_pages E pg (va_range i n) w)"
proof (induction i n arbitrary: w rule: va_range.induct)
  case (1 i n)
  have cmp: "((of_nat i :: word32) < lim) = (i < n)"
    using 1(2,4) by (simp add: word_less_nat_alt unat_of_nat_word32)
  show ?case
  proof (cases "i < n")
    case True
    then have nx: "i + PGSIZE < 2 ^ 32" using 1(3) by simp
    with True cmp 1(1) [OF True 1(2,3) nx] show ?thesis
      by (subst remove_ustack.simps) (simp add: va_range_Cons)
  next
    case False
    with cmp show ?thesis
      by (subst remove_ustack.simps) (simp add: va_range_Nil)
  qed
qed

lemma remove_ustack_ok:
  "no_wrap C \<Longrightarrow>
   remove_ustack E pg (USTACKTOP C - USR_STACK_SIZE C) (USTACKTOP C) w =
     Some (remove_pages E pg (stack_vas C) w)"
  using remove_ustack_ok_aux [of "ustack_top C" "USTACKTOP C" "ustack_base C" E pg w]
    ustack_base_less [of C]
  by (simp add: no_wrap_def ustack_top_def ustack_base_word stack_vas_def)

lemma unat_page_step:
  "unat (i + of_nat PGSIZE :: word32) =
     (if unat i + PGSIZE < 2 ^ 32 then unat i + PGSIZE else unat i + PGSIZE - 2 ^ 32)"
proof -
  have "unat (i + of_nat PGSIZE :: word32) = (unat i + PGSIZE) mod 2 ^ 32"
    by (simp add: unat_word_ariths PGSIZE_def)
  moreover have "unat i < 2 ^ 32" using unsigned_less [of i, where ?'a = nat] by simp
  ultimately show ?thesis
    by (auto simp: PGSIZE_def not_less mod_if)
qed

lemma setup_ustack_success_aux:
  "setup_ustack E pg i lim w = Some y \<Longrightarrow>
   fst y \<longrightarrow>
     (\<exists>k. unat lim \<le> unat i + k * PGSIZE \<and> unat i + k * PGSIZE < 2 ^ 32) \<and>
     map_pages E pg (va_range (unat i) (unat lim)) w = y"
proof (induction rule: setup_ustack.raw_induct [rotated 1, consumes 1])
  case (1 lp E pg i lim w y)
  have ilt: "unat i < 2 ^ 32" using unsigned_less [of i, where ?'a = nat] by simp
  show ?case
  proof (cases "i < lim")
    case False
    with 1(2) have y: "y = (True, w)" by simp
    from False have ge: "unat lim \<le> unat i" by (simp add: word_less_nat_alt)
    then have "unat lim \<le> unat i + 0 * PGSIZE \<and> unat i + 0 * PGSIZE < 2 ^ 32"
      using ilt by simp
    then have "\<exists>k. unat lim \<le> unat i + k * PGSIZE \<and> unat i + k * PGSIZE < 2 ^ 32" by blast
    with y ge show ?thesis by (simp add: va_range_Nil)
  next
    case True
    then have lt: "unat i < unat lim" by (simp add: word_less_nat_alt)
    obtain ppage w1 where pa: "page_alloc E 1 w = (ppage, w1)"
      by (cases "page_alloc E 1 w")
    show ?thesis
    proof (cases "ppage = 0")
      case True
      with \<open>i < lim\<close> pa 1(2) show ?thesis by auto
    next
      case False
      let ?w2 = "page_insert E pg ppage i (PTE_U OR PTE_W) w1"
      from False \<open>i < lim\<close> pa 1(2)
      have rec: "lp E pg (i + of_nat PGSIZE) lim ?w2 = Some y" by simp
      show ?thesis
      proof
        assume fy: "fst y"
        from 1(1) [OF rec] fy obtain k
          where k: "unat lim \<le> unat (i + of_nat PGSIZE) + k * PGSIZE"
                   "unat (i + of_nat PGSIZE) + k * PGSIZE < 2 ^ 32"
            and mp: "map_pages E pg (va_range (unat (i + of_nat PGSIZE)) (unat lim)) ?w2 = y"
          by blast
        have nowrap: "unat i + PGSIZE < 2 ^ 32"
        proof (rule ccontr)
          assume "\<not> unat i + PGSIZE < 2 ^ 32"
          then have w: "2 ^ 32 \<le> unat i + PGSIZE"
            and u: "unat (i + of_nat PGSIZE) = unat i + PGSIZE - 2 ^ 32"
            by (simp_all add: unat_page_step)
          from k u w lt ilt show False
            by (simp add: PGSIZE_def) presburger
        qed
        then have u: "unat (i + of_nat PGSIZE) = unat i + PGSIZE" by (simp add: unat_page_step)
        from k u have "unat lim \<le> unat i + Suc k * PGSIZE \<and> unat i + Suc k * PGSIZE < 2 ^ 32"
          by (simp add: add.assoc)
        then have ex: "\<exists>k. unat lim \<le> unat i + k * PGSIZE \<and> unat i + k * PGSIZE < 2 ^ 32"
          by blast
        have "map_pages E pg (va_range (unat i) (unat lim)) w = y"
          using lt pa False mp u by (simp add: va_range_Cons)
        with ex show "(\<exists>k. unat lim \<le> unat i + k * PGSIZE \<and> unat i + k * PGSIZE < 2 ^ 32) \<and>
          map_pages E pg (va_range (unat i) (unat lim)) w = y"
          by simp
      qed
    qed
  qed
qed

lemma setup_ustack_success:
  "setup_ustack E pg (USTACKTOP C - USR_STACK_SIZE C) (USTACKTOP C) w = Some (True, w') \<Longrightarrow>
   map_pages E pg (stack_vas C) w = (True, w')"
  using setup_ustack_success_aux
    [of E pg "USTACKTOP C - USR_STACK_SIZE C" "USTACKTOP C" w "(True, w')"]
  by (simp add: stack_vas_def ustack_base_def ustack_top_def)

lemma remove_ustack_success_aux:
  "remove_ustack E pg i lim w = Some w' \<Longrightarrow>
   (\<exists>k. unat lim \<le> unat i + k * PGSIZE \<and> unat i + k * PGSIZE < 2 ^ 32) \<and>
   remove_pages E pg (va_range (unat i) (unat lim)) w = w'"
proof (induction rule: remove_ustack.raw_induct [rotated 1, consumes 1])
  case (1 lp E pg i lim w w')
  have ilt: "unat i < 2 ^ 32" using unsigned_less [of i, where ?'a = nat] by simp
  show ?case
  proof (cases "i < lim")
    case False
    with 1(2) have y: "w' = w" by simp
    from False have ge: "unat lim \<le> unat i" by (simp add: word_less_nat_alt)
    then have "unat lim \<le> unat i + 0 * PGSIZE \<and> unat i + 0 * PGSIZE < 2 ^ 32"
      using ilt by simp
    then have "\<exists>k. unat lim \<le> unat i + k * PGSIZE \<and> unat i + k * PGSIZE < 2 ^ 32" by blast
    with y ge show ?thesis by (simp add: va_range_Nil)
  next
    case True
    then have lt: "unat i < unat lim" by (simp add: word_less_nat_alt)
    let ?w2 = "page_remove E pg i w"
    from True 1(2) have rec: "lp E pg (i + of_nat PGSIZE) lim ?w2 = Some w'" by simp
    from 1(1) [OF rec] obtain k
      where k: "unat lim \<le> unat (i + of_nat PGSIZE) + k * PGSIZE"
               "unat (i + of_nat PGSIZE) + k * PGSIZE < 2 ^ 32"
        and rp: "remove_pages E pg (va_range (unat (i + of_nat PGSIZE)) (unat lim)) ?w2 = w'"
      by blast
    have nowrap: "unat i + PGSIZE < 2 ^ 32"
    proof (rule ccontr)
      assume "\<not> unat i + PGSIZE < 2 ^ 32"
      then have w: "2 ^ 32 \<le> unat i + PGSIZE"
        and u: "unat (i + of_nat PGSIZE) = unat i + PGSIZE - 2 ^ 32"
        by (simp_all add: unat_page_step)
      from k u w lt ilt show False
        by (simp add: PGSIZE_def) presburger
    qed
    then have u: "unat (i + of_nat PGSIZE) = unat i + PGSIZE" by (simp add: unat_page_step)
    from k u have "unat lim \<le> unat i + Suc k * PGSIZE \<and> unat i + Suc k * PGSIZE < 2 ^ 32"
      by (simp add: add.assoc)
    then have ex: "\<exists>k. unat lim \<le> unat i + k * PGSIZE \<and> unat i + k * PGSIZE < 2 ^ 32"
      by blast
    have "remove_pages E pg (va_range (unat i) (unat lim)) w = w'"
      using lt rp u by (simp add: va_range_Cons)
    with ex show ?thesis by simp
  qed
qed

lemma remove_ustack_success:
  "remove_ustack E pg (USTACKTOP C - USR_STACK_SIZE C) (USTACKTOP C) w = Some w' \<Longrightarrow>
   remove_pages E pg (stack_vas C) w = w'"
  using remove_ustack_success_aux
    [of E pg "USTACKTOP C - USR_STACK_SIZE C" "USTACKTOP C" w w']
  by (simp add: stack_vas_def ustack_base_def ustack_top_def)

lemma set_va_range:
  "set (va_range i lim) = {va. i \<le> va \<and> va < lim \<and> PGSIZE dvd (va - i)}"
proof (induction i lim rule: va_range.induct)
  case (1 i lim)
  show ?case
  proof (cases "i < lim")
    case True
    then have v: "va_range i lim = i # va_range (i + PGSIZE) lim"
      by (subst va_range.simps) simp
    have "{va. i \<le> va \<and> va < lim \<and> PGSIZE dvd (va - i)} =
          insert i {va. i + PGSIZE \<le> va \<and> va < lim \<and> PGSIZE dvd (va - (i + PGSIZE))}"
      (is "?L = insert i ?R")
    proof (rule set_eqI)
      fix va
      show "(va \<in> ?L) = (va \<in> insert i ?R)"
      proof
        assume "va \<in> ?L"
        then have a: "i \<le> va" "va < lim" "PGSIZE dvd (va - i)" by auto
        show "va \<in> insert i ?R"
        proof (cases "va = i")
          case True then show ?thesis by simp
        next
          case False
          from a(3) obtain k where k: "va - i = PGSIZE * k" by (auto simp: dvd_def)
          with False a(1) have "k \<noteq> 0" by (cases k) auto
          then obtain k' where "k = Suc k'" by (cases k) auto
          with k a(1) have "va = i + PGSIZE + PGSIZE * k'" by simp
          then have "i + PGSIZE \<le> va" "PGSIZE dvd (va - (i + PGSIZE))" by auto
          with a(2) show ?thesis by simp
        qed
      next
        assume "va \<in> insert i ?R"
        then show "va \<in> ?L"
        proof
          assume "va = i" with True show ?thesis by simp
        next
          assume "va \<in> ?R"
          then have a: "i + PGSIZE \<le> va" "va < lim" "PGSIZE dvd (va - (i + PGSIZE))" by auto
          from a(3) obtain k where "va - (i + PGSIZE) = PGSIZE * k" by (auto simp: dvd_def)
          with a(1) have "va - i = PGSIZE * Suc k" by simp
          then have "PGSIZE dvd (va - i)" by (metis dvd_triv_left)
          with a show ?thesis by simp
        qed
      qed
    qed
    with v 1 [OF True] show ?thesis by simp
  next
    case False
    then have "va_range i lim = []" by (subst va_range.simps) simp
    with False show ?thesis by auto
  qed
qed

lemma count_runnable_update:
  "i < length ts \<Longrightarrow> state (ts ! i) \<noteq> TASK_RUNNABLE \<Longrightarrow> state t = TASK_RUNNABLE \<Longrightarrow>
   count_runnable (ts[i := t]) = Suc (count_runnable ts)"
proof (induction ts arbitrary: i)
  case Nil
  then show ?case by simp
next
  case (Cons a ts)
  then show ?case by (cases i) (auto simp: count_runnable_def)
qed

lemma init_tasks_gen:
  "i \<le> length ts \<Longrightarrow> init_tasks ts i = take i ts @ replicate (length ts - i) free_task"
proof (induction ts i rule: init_tasks.induct)
  case (1 ts i)
  show ?case
  proof (cases "i < length ts")
    case True
    then have "init_tasks ts i = init_tasks (ts[i := free_task]) (Suc i)"
      by (subst init_tasks.simps) simp
    also have "\<dots> = take (Suc i) (ts[i := free_task]) @ replicate (length ts - Suc i) free_task"
      using 1 True by simp
    also have "\<dots> = take i ts @ replicate (length ts - i) free_task"
      using True by (simp add: take_Suc_conv_app_nth replicate_app_Cons_same Suc_diff_Suc
          flip: replicate_Suc)
    finally show ?thesis .
  next
    case False
    with 1(2) show ?thesis by (subst init_tasks.simps) simp
  qed
qed

lemma init_tasks_eq: "init_tasks ts 0 = replicate (length ts) free_task"
  by (simp add: init_tasks_gen)

subsection \<open>The outcomes of task creation\<close>

lemma task_create_full:
  "NR_TASKS s \<le> find_free (tasks s) 0 \<Longrightarrow> task_create E C s = Inr (- 1, s)"
  by (simp add: task_create_def Let_def)

lemma task_create_panic:
  "find_free (tasks s) 0 < NR_TASKS s \<Longrightarrow> fst (setupkvm E (world s)) = 0 \<Longrightarrow>
   task_create E C s =
     Inl (Panic (''Not enough memory for per process page directory!'' @ [CHR 0x0A]))"
  by (cases "setupkvm E (world s)") (simp add: task_create_def Let_def)


lemma task_create_unfold:
  assumes "find_free (tasks s) 0 = i" "i < NR_TASKS s"
    and "setupkvm E (world s) = (pg, w1)" "pg \<noteq> 0"
  shows "task_create E C s =
    (case setup_ustack E pg (USTACKTOP C - USR_STACK_SIZE C) (USTACKTOP C)
            (after_setupkvm E (world s)) of
       None \<Rightarrow> Inl Diverges
     | Some (ok, w3) \<Rightarrow>
         if \<not> ok
         then Inr (- 1, s\<lparr>tasks := (tasks s)[i := (tasks s ! i)\<lparr>pgdir := pg\<rparr>], world := w3\<rparr>)
         else (case cur_task s of
                 None \<Rightarrow> Inr (int i, s\<lparr>tasks := (tasks s)[i := created C s i pg], world := w3\<rparr>)
               | Some c \<Rightarrow>
                   if c < NR_TASKS s
                   then Inr (int i, s\<lparr>tasks := (tasks s)[i := created C s i pg], world := w3\<rparr>)
                   else Inl (BadTaskIndex (int c))))"
proof (cases "cur_task s")
  case None
  with assms show ?thesis
    by (simp add: task_create_def Let_def after_setupkvm_def created_def user_tf_def
        NR_TASKS_def split: option.split prod.split)
next
  case (Some c)
  with assms show ?thesis
    by (simp add: task_create_def Let_def after_setupkvm_def created_def user_tf_def
        NR_TASKS_def nth_list_update split: option.split prod.split)
qed


lemma task_create_ok:
  assumes "find_free (tasks s) 0 = i" "i < NR_TASKS s"
    and "setupkvm E (world s) = (pg, w1)" "pg \<noteq> 0"
    and "map_pages E pg (stack_vas C) (after_setupkvm E (world s)) = (True, w3)"
    and "cur_valid s" and "no_wrap C"
  shows "task_create E C s =
           Inr (int i, s\<lparr>tasks := (tasks s)[i := created C s i pg], world := w3\<rparr>)"
proof -
  have "setup_ustack E pg (USTACKTOP C - USR_STACK_SIZE C) (USTACKTOP C)
          (after_setupkvm E (world s)) = Some (True, w3)"
    using setup_ustack_ok [OF assms(7), of E pg "after_setupkvm E (world s)"] assms(5) by simp
  with assms(6) show ?thesis
    by (cases "cur_task s") (simp_all add: task_create_unfold [OF assms(1-4)] cur_valid_def)
qed

lemma task_create_success:
  assumes "task_create E C s = Inr (r, s')" "r \<noteq> - 1"
  shows "find_free (tasks s) 0 < NR_TASKS s \<and> r = int (find_free (tasks s) 0) \<and>
         fst (setupkvm E (world s)) \<noteq> 0 \<and> cur_valid s \<and>
         setup_ustack E (fst (setupkvm E (world s))) (USTACKTOP C - USR_STACK_SIZE C)
           (USTACKTOP C) (after_setupkvm E (world s)) = Some (True, world s') \<and>
         s' = s\<lparr>tasks := (tasks s)[find_free (tasks s) 0 :=
                     created C s (find_free (tasks s) 0) (fst (setupkvm E (world s)))],
                world := world s'\<rparr>"
proof -
  let ?i = "find_free (tasks s) 0"
  obtain pg w1 where sk: "setupkvm E (world s) = (pg, w1)" by (cases "setupkvm E (world s)")
  have i: "?i < NR_TASKS s"
    using assms task_create_full [of s E C] by (cases "?i < NR_TASKS s") auto
  have pg: "pg \<noteq> 0"
    using assms i sk task_create_panic [of s E C] by (cases "pg = 0") auto
  note u = task_create_unfold [OF refl i sk pg, of C]
  obtain ok w3 where lp: "setup_ustack E pg (USTACKTOP C - USR_STACK_SIZE C) (USTACKTOP C)
      (after_setupkvm E (world s)) = Some (ok, w3)"
    using assms u
    by (cases "setup_ustack E pg (USTACKTOP C - USR_STACK_SIZE C) (USTACKTOP C)
      (after_setupkvm E (world s))") auto
  have ok: "ok" using assms u lp by (cases ok) auto
  have cv: "cur_valid s"
    using assms u lp ok by (auto simp: cur_valid_def split: option.splits if_splits)
  from assms(1) u lp ok cv
  have "r = int ?i" "s' = s\<lparr>tasks := (tasks s)[?i := created C s ?i pg], world := w3\<rparr>"
    by (auto simp: cur_valid_def split: option.splits if_splits)
  with i sk pg lp ok cv show ?thesis by simp
qed

subsection \<open>The outcomes of termination\<close>

lemma task_free_eq:
  "no_wrap C \<Longrightarrow> 0 < pid \<Longrightarrow> pid < int (NR_TASKS s) \<Longrightarrow>
   task_free E C pid s =
     Inr (s\<lparr>world := pgdir_remove E (pgdir (tasks s ! nat pid))
                  (ptable_remove E (pgdir (tasks s ! nat pid))
                     (remove_pages E (pgdir (tasks s ! nat pid)) (stack_vas C)
                        (lcr3 E (PADDR E (kern_pgdir E (world s))) (world s))))\<rparr>)"
  by (simp add: task_free_def Let_def remove_ustack_ok)

lemma sys_kill_eq_killed:
  assumes "no_wrap C" "0 < pid" "pid < int (NR_TASKS s)" "\<not> slot_free (tasks s ! nat pid)"
  shows "sys_kill E C pid s = Inr (sched_yield E (killed E C (nat pid) s))"
proof -
  let ?s1 = "s\<lparr>tasks := (tasks s)[nat pid := (tasks s ! nat pid)\<lparr>state := TASK_STOP\<rparr>]\<rparr>"
  have n: "nat pid < length (tasks s)" using assms by (simp add: NR_TASKS_def)
  have "pid < int (NR_TASKS ?s1)" using assms by (simp add: NR_TASKS_def)
  from task_free_eq [OF assms(1,2) this, of E] n
  have "task_free E C pid ?s1 = Inr (killed E C (nat pid) s)"
    by (simp add: killed_def)
  then show ?thesis using assms by (simp add: sys_kill_def slot_free_def)
qed

lemma sys_kill_returned:
  assumes "0 < pid" "pid < int (NR_TASKS s)" "\<not> slot_free (tasks s ! nat pid)"
    and "sys_kill E C pid s = Inr s'"
  shows "s' = sched_yield E (killed E C (nat pid) s)"
proof -
  let ?s1 = "s\<lparr>tasks := (tasks s)[nat pid := (tasks s ! nat pid)\<lparr>state := TASK_STOP\<rparr>]\<rparr>"
  let ?pg = "pgdir (tasks s ! nat pid)"
  let ?w1 = "lcr3 E (PADDR E (kern_pgdir E (world s))) (world s)"
  have n: "nat pid < length (tasks s)" using assms by (simp add: NR_TASKS_def)
  have tf: "task_free E C pid ?s1 =
      (case remove_ustack E ?pg (USTACKTOP C - USR_STACK_SIZE C) (USTACKTOP C) ?w1 of
         None \<Rightarrow> Inl Diverges
       | Some w2 \<Rightarrow> Inr (?s1\<lparr>world := pgdir_remove E ?pg (ptable_remove E ?pg w2)\<rparr>))"
    using assms(1,2) n by (simp add: task_free_def Let_def NR_TASKS_def split: option.split)
  have k: "sys_kill E C pid s =
      (case task_free E C pid ?s1 of Inl f \<Rightarrow> Inl f | Inr s1 \<Rightarrow> Inr (sched_yield E s1))"
    using assms(1-3) by (simp add: sys_kill_def slot_free_def)
  obtain w2 where lp: "remove_ustack E ?pg (USTACKTOP C - USR_STACK_SIZE C) (USTACKTOP C) ?w1
      = Some w2"
    using assms(4) k tf
    by (cases "remove_ustack E ?pg (USTACKTOP C - USR_STACK_SIZE C) (USTACKTOP C) ?w1") auto
  from remove_ustack_success [OF lp] have "w2 = remove_pages E ?pg (stack_vas C) ?w1" by simp
  with assms(4) k tf lp show ?thesis by (simp add: killed_def)
qed

lemma sys_kill_skip:
  "pid \<le> 0 \<or> int (NR_TASKS s) \<le> pid \<or> slot_free (tasks s ! nat pid) \<Longrightarrow>
   sys_kill E C pid s = Inr s"
  by (auto simp: sys_kill_def slot_free_def)

subsection \<open>The outcomes of fork and of initialisation\<close>

lemma sys_fork_no_slot:
  assumes "cur_task s = Some c" and "\<forall>j < NR_TASKS s. \<not> slot_free (tasks s ! j)"
  shows "sys_fork E C s = Inl (BadTaskIndex (- 1))"
proof -
  have "NR_TASKS s \<le> find_free (tasks s) 0"
    using assms(2) slot_free_ex [of s] by auto
  then have "task_create E C s = Inr (- 1, s)" by (rule task_create_full)
  with assms(1) show ?thesis by (simp add: sys_fork_def)
qed

lemma sys_fork_success:
  fixes s :: "'w kstate" and E :: "'w extern" and C :: config
  defines "i \<equiv> find_free (tasks s) 0"
  defines "tab1 \<equiv> (tasks s)[i := created C s i (fst (setupkvm E (world s)))]"
  assumes cur: "cur_task s = Some c" and fk: "sys_fork E C s = Inr (r, s')" and r: "r \<noteq> - 1"
  shows "0 < i \<and> i < NR_TASKS s \<and> c < NR_TASKS s \<and> r = int i \<and> cur_task s' = Some c \<and>
         tasks s' = tab1[i := (tab1 ! i)
                      \<lparr>tf := (tf (tab1 ! c))\<lparr>tf_regs := (tf_regs (tf (tab1 ! c)))\<lparr>reg_eax := 0\<rparr>\<rparr>\<rparr>]"
proof -
  obtain pid s1 where tc: "task_create E C s = Inr (pid, s1)"
    using cur fk by (cases "task_create E C s") (auto simp: sys_fork_def)
  have p0: "pid \<noteq> 0" using cur fk r tc by (auto simp: sys_fork_def)
  have rng: "0 \<le> pid \<and> pid < int (NR_TASKS s1)"
    using cur fk tc p0 by (auto simp: sys_fork_def split: if_splits)
  then have p1: "pid \<noteq> - 1" by auto
  have c1: "c < NR_TASKS s1"
    using cur fk tc p0 rng by (auto simp: sys_fork_def split: if_splits)
  from task_create_success [OF tc p1]
  have i: "i < NR_TASKS s" and pid: "pid = int i"
    and s1: "s1 = s\<lparr>tasks := tab1, world := world s1\<rparr>"
    by (simp_all add: i_def tab1_def)
  have t1: "tasks s1 = tab1" by (subst s1) simp
  have n1: "NR_TASKS s1 = NR_TASKS s" by (simp add: NR_TASKS_def t1 tab1_def)
  have cs1: "cur_task s1 = Some c" using cur by (subst s1) simp
  let ?tab2 = "tab1[i := (tab1 ! i)\<lparr>tf := tf (tab1 ! c)\<rparr>]"
  let ?lp = "copy_ustack E (pgdir (?tab2 ! i)) (USTACKTOP C - USR_STACK_SIZE C) (USTACKTOP C)
      (world s1)"
  have u: "sys_fork E C s =
      (case ?lp of
         None \<Rightarrow> Inl Diverges
       | Some (ok, w1) \<Rightarrow>
           if \<not> ok then Inr (- 1, s1\<lparr>tasks := ?tab2, world := w1\<rparr>)
           else Inr (pid, s1\<lparr>tasks := ?tab2[i := (?tab2 ! i)
                 \<lparr>tf := (tf (?tab2 ! i))\<lparr>tf_regs := (tf_regs (tf (?tab2 ! i)))\<lparr>reg_eax := 0\<rparr>\<rparr>\<rparr>],
               world := setup_user_vm E C s1 (pgdir (?tab2 ! i)) w1\<rparr>))"
    using cur tc p0 rng c1
    by (simp add: sys_fork_def Let_def pid t1 split: option.split prod.split)
  obtain ok w1 where cp: "?lp = Some (ok, w1)"
    using fk u by (cases ?lp) auto
  have fk': "sys_fork E C s =
      (if \<not> ok then Inr (- 1, s1\<lparr>tasks := ?tab2, world := w1\<rparr>)
       else Inr (pid, s1\<lparr>tasks := ?tab2[i := (?tab2 ! i)
                 \<lparr>tf := (tf (?tab2 ! i))\<lparr>tf_regs := (tf_regs (tf (?tab2 ! i)))\<lparr>reg_eax := 0\<rparr>\<rparr>\<rparr>],
               world := setup_user_vm E C s1 (pgdir (?tab2 ! i)) w1\<rparr>))"
    using u cp by simp
  have ok: ok using fk fk' r by (cases ok) auto
  have il: "i < length tab1" using i by (simp add: tab1_def NR_TASKS_def)
  from fk fk' ok have "r = pid" and
    s': "s' = s1\<lparr>tasks := ?tab2[i := (?tab2 ! i)
                 \<lparr>tf := (tf (?tab2 ! i))\<lparr>tf_regs := (tf_regs (tf (?tab2 ! i)))\<lparr>reg_eax := 0\<rparr>\<rparr>\<rparr>],
               world := setup_user_vm E C s1 (pgdir (?tab2 ! i)) w1\<rparr>"
    by simp_all
  have ts': "tasks s' = tab1[i := (tab1 ! i)
                      \<lparr>tf := (tf (tab1 ! c))\<lparr>tf_regs := (tf_regs (tf (tab1 ! c)))\<lparr>reg_eax := 0\<rparr>\<rparr>\<rparr>]"
    using il by (subst s') simp
  have cs': "cur_task s' = Some c" using cs1 by (subst s') simp
  from p0 pid i c1 n1 \<open>r = pid\<close> ts' cs' show ?thesis by simp
qed


lemma create_world_eq:
  "can_create E C w \<Longrightarrow>
   map_pages E (fst (setupkvm E w)) (stack_vas C) (after_setupkvm E w) = (True, create_world E C w)"
  by (cases "map_pages E (fst (setupkvm E w)) (stack_vas C) (after_setupkvm E w)")
    (simp add: can_create_def create_world_def)

lemma task_create_returns:
  assumes "no_wrap C" and "cur_valid s" and "find_free (tasks s) 0 = i" and "i < NR_TASKS s"
    and "can_create E C (world s)"
  shows "task_create E C s =
           Inr (int i, s\<lparr>tasks := (tasks s)[i := created C s i (fst (setupkvm E (world s)))],
                         world := create_world E C (world s)\<rparr>)"
proof -
  have sk: "setupkvm E (world s) = (fst (setupkvm E (world s)), snd (setupkvm E (world s)))"
    by simp
  have pg: "fst (setupkvm E (world s)) \<noteq> 0" using assms(5) by (simp add: can_create_def)
  from task_create_ok [OF assms(3,4) sk pg create_world_eq [OF assms(5)] assms(2,1)]
  show ?thesis .
qed

lemma sys_fork_returns:
  assumes nw: "no_wrap C" and cur: "cur_task s = Some c" and c: "c < NR_TASKS s"
    and ff: "find_free (tasks s) 0 = i" and i0: "0 < i" and i: "i < NR_TASKS s"
    and cc: "can_create E C (world s)" and cp: "can_copy E C (world s)"
  shows "\<exists>s'. sys_fork E C s = Inr (int i, s')"
proof -
  let ?pg = "fst (setupkvm E (world s))"
  let ?s1 = "s\<lparr>tasks := (tasks s)[i := created C s i ?pg], world := create_world E C (world s)\<rparr>"
  have cv: "cur_valid s" using cur c by (simp add: cur_valid_def)
  have tc: "task_create E C s = Inr (int i, ?s1)"
    by (rule task_create_returns [OF nw cv ff i cc])
  have il: "i < length (tasks s)" using i by (simp add: NR_TASKS_def)
  have lp: "copy_ustack E ?pg (USTACKTOP C - USR_STACK_SIZE C) (USTACKTOP C)
      (create_world E C (world s)) =
      Some (True, snd (copy_pages E ?pg (stack_vas C) (create_world E C (world s))))"
    using copy_ustack_ok [OF nw, of E ?pg "create_world E C (world s)"] cp
    by (cases "copy_pages E ?pg (stack_vas C) (create_world E C (world s))")
      (simp add: can_copy_def)
  show ?thesis
    using cur c tc i0 i il lp
    by (simp add: sys_fork_def Let_def NR_TASKS_def created_def)
qed

lemma find_free_replicate: "0 < n \<Longrightarrow> find_free (replicate n free_task) 0 = 0"
  by (subst find_free.simps) (simp add: free_task_def)

lemma task_init_success:
  assumes cur: "cur_task s = None" and ti: "task_init E C s = Inr s1"
  shows "0 < NR_TASKS s \<and> cur_task s1 = Some 0 \<and> length (tasks s1) = length (tasks s) \<and>
         task_id (tasks s1 ! 0) = 0 \<and> state (tasks s1 ! 0) = TASK_RUNNING \<and>
         parent_id (tasks s1 ! 0) = - 1 \<and>
         (\<forall>j. 0 < j \<and> j < NR_TASKS s \<longrightarrow> tasks s1 ! j = free_task)"
proof -
  define s3 where "s3 = s\<lparr>UTEXT_SZ := UTEXT_end C - UTEXT_start C,
                  UDATA_SZ := UDATA_end C - UDATA_start C,
                  UBSS_SZ := UBSS_end C - UBSS_start C,
                  URODATA_SZ := URODATA_end C - URODATA_start C,
                  tasks := init_tasks (tasks s) 0,
                  world := tss_gdt_setup E (world s)\<rparr>"
  have t3: "tasks s3 = replicate (length (tasks s)) free_task"
    by (simp add: s3_def init_tasks_eq)
  have c3: "cur_task s3 = None" using cur by (simp add: s3_def)
  have n3: "NR_TASKS s3 = NR_TASKS s" by (simp add: NR_TASKS_def t3)
  have ti': "task_init E C s =
      (case task_create E C s3 of
         Inl f \<Rightarrow> Inl f
       | Inr (i, s4) \<Rightarrow>
           if \<not> (0 \<le> i \<and> i < int (NR_TASKS s4)) then Inl (BadTaskIndex i)
           else Inr (s4\<lparr>tasks := (tasks s4)[nat i :=
                          (tasks s4 ! nat i)\<lparr>tf := (tf (tasks s4 ! nat i))\<lparr>tf_eip := user_entry C\<rparr>,
                                             state := TASK_RUNNING\<rparr>],
                        cur_task := Some (nat i),
                        world := load_gdt_ldt_tr E
                          (setup_user_vm E C s4 (pgdir (tasks s4 ! nat i))
                             (printk E (''first task id = %d parent id = %d'' @ [CHR 0x0A])
                                [task_id (tasks s4 ! nat i), parent_id (tasks s4 ! nat i)]
                                (world s4)))\<rparr>))"
    by (simp add: task_init_def Let_def s3_def split: sum.split prod.split)
  obtain i s4 where tc: "task_create E C s3 = Inr (i, s4)"
    using ti ti' by (cases "task_create E C s3") auto
  have rng: "0 \<le> i \<and> i < int (NR_TASKS s4)"
    using ti ti' tc by (auto split: if_splits)
  then have "i \<noteq> - 1" by auto
  from task_create_success [OF tc this]
  have f: "find_free (tasks s3) 0 < NR_TASKS s3" and i: "i = int (find_free (tasks s3) 0)"
    and s4: "s4 = s3\<lparr>tasks := (tasks s3)[find_free (tasks s3) 0 :=
        created C s3 (find_free (tasks s3) 0) (fst (setupkvm E (world s3)))],
        world := world s4\<rparr>"
    by simp_all
  have "find_free (tasks s3) 0 < length (tasks s)"
    using f by (simp add: NR_TASKS_def t3 del: length_greater_0_conv)
  then have pos: "0 < length (tasks s)" by arith
  have ff: "find_free (tasks s3) 0 = 0" using pos by (simp add: t3 find_free_replicate)
  have i0: "i = 0" using i ff by simp
  have t4: "tasks s4 = (replicate (length (tasks s)) free_task)
      [0 := created C s3 0 (fst (setupkvm E (world s3)))]"
    by (subst s4) (simp add: t3 find_free_replicate [OF pos])
  from ti ti' tc rng i0
  have s1: "s1 = s4\<lparr>tasks := (tasks s4)[0 :=
                          (tasks s4 ! 0)\<lparr>tf := (tf (tasks s4 ! 0))\<lparr>tf_eip := user_entry C\<rparr>,
                                             state := TASK_RUNNING\<rparr>],
                        cur_task := Some 0,
                        world := load_gdt_ldt_tr E
                          (setup_user_vm E C s4 (pgdir (tasks s4 ! 0))
                             (printk E (''first task id = %d parent id = %d'' @ [CHR 0x0A])
                                [task_id (tasks s4 ! 0), parent_id (tasks s4 ! 0)]
                                (world s4)))\<rparr>"
    by simp
  have t1: "tasks s1 = (replicate (length (tasks s)) free_task)
      [0 := (created C s3 0 (fst (setupkvm E (world s3))))
              \<lparr>tf := (user_tf C)\<lparr>tf_eip := user_entry C\<rparr>, state := TASK_RUNNING\<rparr>]"
    using pos by (subst s1) (simp add: t4 created_def)
  have c1: "cur_task s1 = Some 0" by (subst s1) simp
  show ?thesis
    using pos c1 c3 by (simp add: t1 NR_TASKS_def created_def)
qed

lemma task_init_returns:
  assumes cur: "cur_task s = None" and n: "0 < NR_TASKS s" and nw: "no_wrap C"
    and cc: "can_create E C (tss_gdt_setup E (world s))"
  shows "\<exists>s1. task_init E C s = Inr s1"
proof -
  define s3 where "s3 = s\<lparr>UTEXT_SZ := UTEXT_end C - UTEXT_start C,
                  UDATA_SZ := UDATA_end C - UDATA_start C,
                  UBSS_SZ := UBSS_end C - UBSS_start C,
                  URODATA_SZ := URODATA_end C - URODATA_start C,
                  tasks := init_tasks (tasks s) 0,
                  world := tss_gdt_setup E (world s)\<rparr>"
  have t3: "tasks s3 = replicate (length (tasks s)) free_task"
    by (simp add: s3_def init_tasks_eq)
  have pos: "0 < length (tasks s)" using n by (simp add: NR_TASKS_def)
  have ff: "find_free (tasks s3) 0 = 0" by (simp add: t3 find_free_replicate [OF pos])
  have cv: "cur_valid s3" using cur by (simp add: s3_def cur_valid_def)
  have n3: "0 < NR_TASKS s3" using pos by (simp add: NR_TASKS_def t3)
  have cc3: "can_create E C (world s3)" using cc by (simp add: s3_def)
  from task_create_returns [OF nw cv ff n3 cc3]
  have tc: "task_create E C s3 =
      Inr (0, s3\<lparr>tasks := (tasks s3)[0 := created C s3 0 (fst (setupkvm E (world s3)))],
                  world := create_world E C (world s3)\<rparr>)"
    by simp
  have "task_init E C s =
      (case task_create E C s3 of
         Inl f \<Rightarrow> Inl f
       | Inr (i, s4) \<Rightarrow>
           if \<not> (0 \<le> i \<and> i < int (NR_TASKS s4)) then Inl (BadTaskIndex i)
           else Inr (s4\<lparr>tasks := (tasks s4)[nat i :=
                          (tasks s4 ! nat i)\<lparr>tf := (tf (tasks s4 ! nat i))\<lparr>tf_eip := user_entry C\<rparr>,
                                             state := TASK_RUNNING\<rparr>],
                        cur_task := Some (nat i),
                        world := load_gdt_ldt_tr E
                          (setup_user_vm E C s4 (pgdir (tasks s4 ! nat i))
                             (printk E (''first task id = %d parent id = %d'' @ [CHR 0x0A])
                                [task_id (tasks s4 ! nat i), parent_id (tasks s4 ! nat i)]
                                (world s4)))\<rparr>))"
    by (simp add: task_init_def Let_def s3_def split: sum.split prod.split)
  with tc pos show ?thesis by (simp add: NR_TASKS_def t3)
qed

subsection \<open>The dispatcher's switch\<close>

lemma switch_case_None:
  "(switch_case C syscallno = None) = (syscallno \<notin> sysno C ` set case_labels)"
  by (auto simp: switch_case_def find_None_iff)

lemma switch_case_fork: "switch_case C (sysno C SYS_fork) = Some SYS_fork"
  by (simp add: switch_case_def case_labels_def)

subsection \<open>Running the simulation\<close>

lemma stack_vas_sim: "stack_vas sim_config = [4005543936, 4005548032]"
  by (simp add: stack_vas_def sim_config_def ustack_base_def ustack_top_def PGSIZE_def
      va_range.simps)

lemmas sim_run =
  sim_extern_def sim_alloc_def sim_log_def sim_world_def after_setupkvm_def stack_vas_sim
  PTE_U_def PTE_W_def

lemmas run_defs =
  Let_def sim_extern_def sim_alloc_def sim_log_def sim_world_def sim_config_def
  ustack_base_def ustack_top_def PGSIZE_def NR_TASKS_def PTE_U_def PTE_W_def GD_UT_def GD_UD_def
  mixed_state_def full_state_def low_memory_state_def no_memory_state_def live_task_def

lemma no_wrap_sim: "no_wrap sim_config"
  by (simp add: no_wrap_def ustack_top_def sim_config_def PGSIZE_def)


subsection \<open>A counter that wraps around\<close>

text \<open>
  With the user stack of \<open>wrap_config\<close> the loops do not stop after the page at
  0xFFFFF000. task_create goes on allocating pages at 0, 0x1000, ... until no frame is
  left and returns -1, with eight frames after seven pages; the loop of task_free, which
  has no other exit, never ends.
\<close>

lemma task_create_wraps:
  "task_create sim_extern wrap_config mixed_state =
     Inr (- 1, snd (projr (task_create sim_extern wrap_config mixed_state))) \<and>
   map (\<lambda>m. snd (fst m)) (mapped (world (snd (projr
       (task_create sim_extern wrap_config mixed_state))))) =
     [0x4000, 0x3000, 0x2000, 0x1000, 0, 0xFFFFF000, 0xFFFFE000]"
  by (simp add: task_create_def wrap_config_def run_defs find_free.simps setup_ustack.simps)

lemma remove_ustack_wraps:
  "remove_ustack E pg (USTACKTOP wrap_config - USR_STACK_SIZE wrap_config)
     (USTACKTOP wrap_config) w = None"
proof (cases "remove_ustack E pg (USTACKTOP wrap_config - USR_STACK_SIZE wrap_config)
     (USTACKTOP wrap_config) w")
  case None
  then show ?thesis .
next
  case (Some w')
  from remove_ustack_success_aux [OF Some]
  obtain k where "unat (USTACKTOP wrap_config) \<le>
        unat (USTACKTOP wrap_config - USR_STACK_SIZE wrap_config) + k * PGSIZE"
    and "unat (USTACKTOP wrap_config - USR_STACK_SIZE wrap_config) + k * PGSIZE < 2 ^ 32"
    by blast
  then have False
    by (simp add: wrap_config_def sim_config_def PGSIZE_def)
  then show ?thesis ..
qed

lemma sys_kill_wraps: "sys_kill sim_extern wrap_config 1 full_state = Inl Diverges"
  by (simp add: sys_kill_def task_free_def remove_ustack_wraps Let_def full_state_def
      NR_TASKS_def live_task_def)

section \<open>The claims\<close>

subsection \<open>Fork on a full table\<close>

text \<open>
  C1 fails on the code. With a current task and every slot RUNNING, RUNNABLE or SLEEP,
  task_create returns -1 and leaves the state as it is, but sys_fork tests the result
  against 0 only: it goes on with pid = -1 and reads and writes \<open>tasks[-1]\<close>, outside
  the table, instead of returning -1.
\<close>

theorem sys_fork_full_table:
  "task_create sim_extern sim_config full_state = Inr (- 1, full_state) \<and>
   sys_fork sim_extern sim_config full_state = Inl (BadTaskIndex (- 1))"
  by (simp add: sys_fork_def task_create_def run_defs find_free.simps)

subsection \<open>Task creation\<close>

text \<open>
  C2, as amended. When at least one slot is FREE or STOP, the page directory is allocated
  and every page of the user stack is allocated (the current-task pointer being NULL or
  pointing into the table, and USTACKTOP at least a page below the end of the address
  space), task_create returns the lowest such slot index, leaves every
  other slot as it was, sets the slot's state to RUNNABLE, so that the number of RUNNABLE
  slots grows by exactly one, its task_id to the slot index, its parent_id to the id of
  the current task, or to -1 when there is none, and its quantum to TIME_QUANT. When no
  slot is FREE or STOP, task_create returns -1 and the whole state is unchanged.
\<close>

theorem task_create_lowest_free_slot:
  "(no_wrap C \<and> cur_valid s \<and> (\<exists>j < NR_TASKS s. slot_free (tasks s ! j)) \<and>
    fst (setupkvm E (world s)) \<noteq> 0 \<and>
    fst (map_pages E (fst (setupkvm E (world s))) (stack_vas C) (after_setupkvm E (world s)))
    \<longrightarrow>
      (\<exists>i s'. task_create E C s = Inr (int i, s') \<and>
         i < NR_TASKS s \<and> slot_free (tasks s ! i) \<and> (\<forall>j < i. \<not> slot_free (tasks s ! j)) \<and>
         length (tasks s') = length (tasks s) \<and>
         (\<forall>j < NR_TASKS s. j \<noteq> i \<longrightarrow> tasks s' ! j = tasks s ! j) \<and>
         state (tasks s' ! i) = TASK_RUNNABLE \<and>
         count_runnable (tasks s') = count_runnable (tasks s) + 1 \<and>
         task_id (tasks s' ! i) = int i \<and>
         parent_id (tasks s' ! i) =
           (case cur_task s of None \<Rightarrow> - 1 | Some c \<Rightarrow> task_id (tasks s' ! c)) \<and>
         remind_ticks (tasks s' ! i) = TIME_QUANT C)) \<and>
   ((\<forall>j < NR_TASKS s. \<not> slot_free (tasks s ! j)) \<longrightarrow> task_create E C s = Inr (- 1, s))"
proof (intro conjI impI)
  assume "\<forall>j < NR_TASKS s. \<not> slot_free (tasks s ! j)"
  then have "NR_TASKS s \<le> find_free (tasks s) 0"
    using slot_free_ex [of s] by auto
  then show "task_create E C s = Inr (- 1, s)" by (rule task_create_full)
next
  let ?i = "find_free (tasks s) 0"
  let ?pg = "fst (setupkvm E (world s))"
  assume a: "no_wrap C \<and> cur_valid s \<and> (\<exists>j < NR_TASKS s. slot_free (tasks s ! j)) \<and> ?pg \<noteq> 0 \<and>
    fst (map_pages E ?pg (stack_vas C) (after_setupkvm E (world s)))"
  then have i: "?i < NR_TASKS s" using slot_free_ex [of s] by simp
  then have len: "?i < length (tasks s)" by (simp add: NR_TASKS_def)
  obtain w3 where mp: "map_pages E ?pg (stack_vas C) (after_setupkvm E (world s)) = (True, w3)"
    using a by (cases "map_pages E ?pg (stack_vas C) (after_setupkvm E (world s))") auto
  let ?s' = "s\<lparr>tasks := (tasks s)[?i := created C s ?i ?pg], world := w3\<rparr>"
  have tc: "task_create E C s = Inr (int ?i, ?s')"
    using a i mp by (intro task_create_ok [where ?w1.0 = "snd (setupkvm E (world s))"]) auto
  have free: "slot_free (tasks s ! ?i)"
    using find_free_slot [of "tasks s" 0] len by simp
  have least: "\<forall>j < ?i. \<not> slot_free (tasks s ! j)"
    using find_free_least [of 0 _ "tasks s"] by simp
  have new: "tasks ?s' ! ?i = created C s ?i ?pg" using len by simp
  have cnt: "count_runnable (tasks ?s') = count_runnable (tasks s) + 1"
  proof -
    have "state (tasks s ! ?i) \<noteq> TASK_RUNNABLE" using free by (auto simp: slot_free_def)
    moreover have "state (created C s ?i ?pg) = TASK_RUNNABLE" by (simp add: created_def)
    ultimately show ?thesis using len by (simp add: count_runnable_update)
  qed
  have par: "parent_id (tasks ?s' ! ?i) =
      (case cur_task s of None \<Rightarrow> - 1 | Some c \<Rightarrow> task_id (tasks ?s' ! c))"
    using len a by (auto simp: created_def cur_valid_def NR_TASKS_def nth_list_update
        split: option.splits)
  show "\<exists>i s'. task_create E C s = Inr (int i, s') \<and>
         i < NR_TASKS s \<and> slot_free (tasks s ! i) \<and> (\<forall>j < i. \<not> slot_free (tasks s ! j)) \<and>
         length (tasks s') = length (tasks s) \<and>
         (\<forall>j < NR_TASKS s. j \<noteq> i \<longrightarrow> tasks s' ! j = tasks s ! j) \<and>
         state (tasks s' ! i) = TASK_RUNNABLE \<and>
         count_runnable (tasks s') = count_runnable (tasks s) + 1 \<and>
         task_id (tasks s' ! i) = int i \<and>
         parent_id (tasks s' ! i) =
           (case cur_task s of None \<Rightarrow> - 1 | Some c \<Rightarrow> task_id (tasks s' ! c)) \<and>
         remind_ticks (tasks s' ! i) = TIME_QUANT C"
  proof (intro exI [of _ ?i] exI [of _ ?s'] conjI)
    show "task_create E C s = Inr (int ?i, ?s')" by (rule tc)
    show "?i < NR_TASKS s" by (rule i)
    show "slot_free (tasks s ! ?i)" by (rule free)
    show "\<forall>j < ?i. \<not> slot_free (tasks s ! j)" by (rule least)
    show "length (tasks ?s') = length (tasks s)" by simp
    show "\<forall>j < NR_TASKS s. j \<noteq> ?i \<longrightarrow> tasks ?s' ! j = tasks s ! j" by simp
    show "state (tasks ?s' ! ?i) = TASK_RUNNABLE" using new by (simp add: created_def)
    show "count_runnable (tasks ?s') = count_runnable (tasks s) + 1" by (rule cnt)
    show "task_id (tasks ?s' ! ?i) = int ?i" using new by (simp add: created_def)
    show "parent_id (tasks ?s' ! ?i) =
      (case cur_task s of None \<Rightarrow> - 1 | Some c \<Rightarrow> task_id (tasks ?s' ! c))" by (rule par)
    show "remind_ticks (tasks ?s' ! ?i) = TIME_QUANT C" using new by (simp add: created_def)
  qed
qed

text \<open>
  The theorem of C2 at two tables: one whose lowest claimable slot is slot 1, with eight
  frames left, and one with no claimable slot.
\<close>

theorem task_create_lowest_free_slot_witness:
  "(\<exists>i s'. task_create sim_extern sim_config mixed_state = Inr (int i, s') \<and>
      i < NR_TASKS mixed_state \<and> slot_free (tasks mixed_state ! i) \<and>
      (\<forall>j < i. \<not> slot_free (tasks mixed_state ! j)) \<and>
      length (tasks s') = length (tasks mixed_state) \<and>
      (\<forall>j < NR_TASKS mixed_state. j \<noteq> i \<longrightarrow> tasks s' ! j = tasks mixed_state ! j) \<and>
      state (tasks s' ! i) = TASK_RUNNABLE \<and>
      count_runnable (tasks s') = count_runnable (tasks mixed_state) + 1 \<and>
      task_id (tasks s' ! i) = int i \<and>
      parent_id (tasks s' ! i) =
        (case cur_task mixed_state of None \<Rightarrow> - 1 | Some c \<Rightarrow> task_id (tasks s' ! c)) \<and>
      remind_ticks (tasks s' ! i) = TIME_QUANT sim_config) \<and>
   task_create sim_extern sim_config full_state = Inr (- 1, full_state)"
proof -
  have h0: "no_wrap sim_config" by (rule no_wrap_sim)
  have h1: "cur_valid mixed_state"
    by (simp add: cur_valid_def mixed_state_def NR_TASKS_def)
  have h2: "\<exists>j < NR_TASKS mixed_state. slot_free (tasks mixed_state ! j)"
    by (rule exI [of _ 1]) (simp add: mixed_state_def NR_TASKS_def slot_free_def live_task_def)
  have h3: "fst (setupkvm sim_extern (world mixed_state)) \<noteq> 0"
    by (simp add: mixed_state_def sim_run)
  have h4: "fst (map_pages sim_extern (fst (setupkvm sim_extern (world mixed_state)))
                   (stack_vas sim_config) (after_setupkvm sim_extern (world mixed_state)))"
    by (simp add: mixed_state_def sim_run)
  have h5: "\<forall>j < NR_TASKS full_state. \<not> slot_free (tasks full_state ! j)"
    by (simp add: full_state_def NR_TASKS_def slot_free_def live_task_def
        less_Suc_eq numeral_3_eq_3)
  from h0 h1 h2 h3 h4 h5
    task_create_lowest_free_slot [where s = mixed_state and E = sim_extern and C = sim_config]
    task_create_lowest_free_slot [where s = full_state and E = sim_extern and C = sim_config]
  show ?thesis by blast
qed

text \<open>
  C2 as stated fails: with slot 1 in state STOP and one frame left, the page directory
  takes the frame, the first page of the user stack cannot be allocated, and task_create
  returns -1. Slot 1 is still in state STOP.
\<close>

theorem task_create_low_memory_counterexample:
  "slot_free (tasks low_memory_state ! 1) \<and>
   task_create sim_extern sim_config low_memory_state =
     Inr (- 1, low_memory_state
                 \<lparr>tasks := (tasks low_memory_state)
                              [1 := (tasks low_memory_state ! 1)\<lparr>pgdir := 0xF0001000\<rparr>],
                  world := \<lparr>frames = 0, mapped = [],
                             calls = [Call_print (''pgdir num = %x'' @ [CHR 0x0A]) [4096]]\<rparr>\<rparr>)"
  by (simp add: task_create_def slot_free_def run_defs find_free.simps setup_ustack.simps)




subsection \<open>Fork\<close>

text \<open>
  C4. When the current task is live (its slot is neither FREE nor STOP) and sys_fork
  returns a value other than -1, that value is the index and the task_id of the child's
  slot, which is not the parent's; the child's saved frame is the parent's frame with eax
  set to 0, and the parent's frame is unchanged.
\<close>

theorem sys_fork_child_frame:
  assumes "cur_task s = Some c" and "c < NR_TASKS s" and "\<not> slot_free (tasks s ! c)"
    and "sys_fork E C s = Inr (r, s')" and "r \<noteq> - 1"
  shows "0 < r \<and> nat r < NR_TASKS s' \<and> nat r \<noteq> c \<and>
         tf (tasks s' ! nat r) =
           (tf (tasks s ! c))\<lparr>tf_regs := (tf_regs (tf (tasks s ! c)))\<lparr>reg_eax := 0\<rparr>\<rparr> \<and>
         reg_eax (tf_regs (tf (tasks s' ! nat r))) = 0 \<and>
         task_id (tasks s' ! nat r) = r \<and>
         tf (tasks s' ! c) = tf (tasks s ! c)"
proof -
  let ?i = "find_free (tasks s) 0"
  let ?tab1 = "(tasks s)[?i := created C s ?i (fst (setupkvm E (world s)))]"
  from sys_fork_success [OF assms(1,4,5)]
  have i0: "0 < ?i" and i: "?i < NR_TASKS s" and r: "r = int ?i"
    and ts': "tasks s' = ?tab1[?i := (?tab1 ! ?i)
        \<lparr>tf := (tf (?tab1 ! c))\<lparr>tf_regs := (tf_regs (tf (?tab1 ! c)))\<lparr>reg_eax := 0\<rparr>\<rparr>\<rparr>]"
    by simp_all
  have len: "?i < length (tasks s)" using i by (simp add: NR_TASKS_def)
  have "slot_free (tasks s ! ?i)" using find_free_slot [of "tasks s" 0] len by simp
  with assms(3) have ne: "?i \<noteq> c" by auto
  then have pc: "?tab1 ! c = tasks s ! c" by simp
  have new: "tasks s' ! nat r = (?tab1 ! ?i)
        \<lparr>tf := (tf (tasks s ! c))\<lparr>tf_regs := (tf_regs (tf (tasks s ! c)))\<lparr>reg_eax := 0\<rparr>\<rparr>\<rparr>"
    using len r by (simp add: ts' pc)
  have par: "tasks s' ! c = tasks s ! c" using ne by (simp add: ts')
  have id: "task_id (?tab1 ! ?i) = int ?i" using len by (simp add: created_def)
  show ?thesis
    using i0 r i ne new par id len by (simp add: ts' NR_TASKS_def)
qed

text \<open>
  The theorem of C4 in the simulation: task 0, whose saved eax is 3, forks task 1.
\<close>

theorem sys_fork_child_frame_witness:
  "fst (projr (sys_fork sim_extern sim_config mixed_state)) = 1 \<and>
   reg_eax (tf_regs (tf (tasks mixed_state ! 0))) = 3 \<and>
   tf (tasks (snd (projr (sys_fork sim_extern sim_config mixed_state))) ! 1) =
     (tf (tasks mixed_state ! 0))\<lparr>tf_regs := (tf_regs (tf (tasks mixed_state ! 0)))\<lparr>reg_eax := 0\<rparr>\<rparr> \<and>
   task_id (tasks (snd (projr (sys_fork sim_extern sim_config mixed_state))) ! 1) = 1"
proof -
  have fk: "sys_fork sim_extern sim_config mixed_state =
      Inr (1, snd (projr (sys_fork sim_extern sim_config mixed_state)))"
    by (simp add: sys_fork_def task_create_def run_defs find_free.simps setup_ustack.simps
        copy_ustack.simps)
  have h1: "cur_task mixed_state = Some 0" by (simp add: mixed_state_def)
  have h2: "0 < NR_TASKS mixed_state" by (simp add: mixed_state_def NR_TASKS_def)
  have h3: "\<not> slot_free (tasks mixed_state ! 0)"
    by (simp add: mixed_state_def slot_free_def live_task_def)
  have h4: "(1::int) \<noteq> - 1" by simp
  from sys_fork_child_frame [OF h1 h2 h3 fk h4]
  have "tf (tasks (snd (projr (sys_fork sim_extern sim_config mixed_state))) ! nat 1) =
     (tf (tasks mixed_state ! 0))\<lparr>tf_regs := (tf_regs (tf (tasks mixed_state ! 0)))\<lparr>reg_eax := 0\<rparr>\<rparr>"
    and "task_id (tasks (snd (projr (sys_fork sim_extern sim_config mixed_state))) ! nat 1) = 1"
    by blast+
  moreover have "fst (projr (sys_fork sim_extern sim_config mixed_state)) = 1"
    by (subst fk) simp
  moreover have "reg_eax (tf_regs (tf (tasks mixed_state ! 0))) = 3"
    by (simp add: mixed_state_def live_task_def)
  ultimately show ?thesis by simp
qed

subsection \<open>Termination\<close>

text \<open>
  C5. For 0 < pid < NR_TASKS and a slot neither FREE nor STOP: with USTACKTOP at least a
  page below the end of the address space, so that the loop's counter cannot wrap around,
  sys_kill sets the slot's state to STOP, loads the physical address of the kernel's page
  directory as the address-space root, removes the page at every address of the user stack
  from the task's page directory, frees the task's page tables and then its page
  directory, hands the resulting state to the scheduler and returns; and whatever
  USTACKTOP is, a sys_kill that returns has done exactly that. The addresses are those
  from USTACKTOP - USR_STACK_SIZE up to USTACKTOP, a page apart.
\<close>

theorem sys_kill_active:
  fixes E :: "'w extern" and s :: "'w kstate" and C :: config and pid :: int
  defines "handed \<equiv>
    s\<lparr>tasks := (tasks s)[nat pid := (tasks s ! nat pid)\<lparr>state := TASK_STOP\<rparr>],
      world := pgdir_remove E (pgdir (tasks s ! nat pid))
                 (ptable_remove E (pgdir (tasks s ! nat pid))
                    (remove_pages E (pgdir (tasks s ! nat pid)) (stack_vas C)
                       (lcr3 E (PADDR E (kern_pgdir E (world s))) (world s))))\<rparr>"
  assumes pos: "0 < pid" and lt: "pid < int (NR_TASKS s)"
    and live: "\<not> slot_free (tasks s ! nat pid)"
  shows "(no_wrap C \<longrightarrow> sys_kill E C pid s = Inr (sched_yield E handed)) \<and>
         (\<forall>s'. sys_kill E C pid s = Inr s' \<longrightarrow> s' = sched_yield E handed) \<and>
         set (stack_vas C) =
           {va. ustack_base C \<le> va \<and> va < ustack_top C \<and> PGSIZE dvd (va - ustack_base C)}"
proof -
  have h: "handed = killed E C (nat pid) s" by (simp add: handed_def killed_def)
  have "no_wrap C \<longrightarrow> sys_kill E C pid s = Inr (sched_yield E handed)"
    using sys_kill_eq_killed [OF _ pos lt live, of C E] by (simp add: h)
  moreover have "\<forall>s'. sys_kill E C pid s = Inr s' \<longrightarrow> s' = sched_yield E handed"
    using sys_kill_returned [OF pos lt live, of E C] by (simp add: h)
  moreover have "set (stack_vas C) =
      {va. ustack_base C \<le> va \<and> va < ustack_top C \<and> PGSIZE dvd (va - ustack_base C)}"
    by (simp add: stack_vas_def set_va_range)
  ultimately show ?thesis by blast
qed

text \<open>
  The theorem of C5 in the simulation: killing task 1 returns, stops slot 1 and makes
  these calls, in this order.
\<close>

theorem sys_kill_active_witness:
  "sys_kill sim_extern sim_config 1 full_state =
     Inr (projr (sys_kill sim_extern sim_config 1 full_state)) \<and>
   state (tasks (projr (sys_kill sim_extern sim_config 1 full_state)) ! 1) = TASK_STOP \<and>
   calls (world (projr (sys_kill sim_extern sim_config 1 full_state))) =
     [Call_lcr3 0,
      Call_page_remove 0xF0101000 0xEEBFC000, Call_page_remove 0xF0101000 0xEEBFD000,
      Call_ptable_remove 0xF0101000, Call_pgdir_remove 0xF0101000, Call_sched_yield]"
proof -
  have h1: "(0::int) < 1" by simp
  have h2: "1 < int (NR_TASKS full_state)" by (simp add: full_state_def NR_TASKS_def)
  have h3: "\<not> slot_free (tasks full_state ! nat 1)"
    by (simp add: full_state_def slot_free_def live_task_def)
  from no_wrap_sim sys_kill_active [OF h1 h2 h3, where C = sim_config and E = sim_extern]
  have k: "sys_kill sim_extern sim_config 1 full_state =
           Inr (sched_yield sim_extern
             (full_state\<lparr>tasks := (tasks full_state)
                           [nat 1 := (tasks full_state ! nat 1)\<lparr>state := TASK_STOP\<rparr>],
                world := pgdir_remove sim_extern (pgdir (tasks full_state ! nat 1))
                           (ptable_remove sim_extern (pgdir (tasks full_state ! nat 1))
                              (remove_pages sim_extern (pgdir (tasks full_state ! nat 1))
                                 (stack_vas sim_config)
                                 (lcr3 sim_extern
                                    (PADDR sim_extern (kern_pgdir sim_extern (world full_state)))
                                    (world full_state))))\<rparr>))"
    by blast
  show ?thesis
    unfolding k by (simp add: full_state_def live_task_def sim_run)
qed

text \<open>
  C6. For a pid that is not positive, not below NR_TASKS, or whose slot is FREE or STOP,
  sys_kill returns the state as it is. The kill case of the dispatcher returns 0 whenever
  it returns, and it returns for every argument when the loop's counter cannot wrap
  around; when the argument is such a pid it returns whatever the configuration, and the
  state it returns differs from the one it was given by the line printed only. After a
  kill that cleaned a task up, when the scheduler has left the slot FREE or STOP, killing
  the same pid again changes nothing: this for the kill that the scheduler's state
  follows when the counter cannot wrap around, and for every kill that returned.
\<close>

theorem sys_kill_noop:
  "(pid \<le> 0 \<or> int (NR_TASKS s) \<le> pid \<or> slot_free (tasks s ! nat pid)
      \<longrightarrow> sys_kill E C pid s = Inr s) \<and>
   (switch_case C syscallno = Some SYS_kill \<longrightarrow>
      (\<forall>r s'. do_syscall E C syscallno a1 a2 a3 a4 a5 s = Inr (r, s') \<longrightarrow> r = 0) \<and>
      (no_wrap C \<longrightarrow> (\<exists>s'. do_syscall E C syscallno a1 a2 a3 a4 a5 s = Inr (0, s'))) \<and>
      (sint a1 \<le> 0 \<or> int (NR_TASKS s) \<le> sint a1 \<or> slot_free (tasks s ! nat (sint a1)) \<longrightarrow>
         do_syscall E C syscallno a1 a2 a3 a4 a5 s =
           Inr (0, s\<lparr>world := cprintf E (''Going to kill pid = %d'' @ [CHR 0x0A]) [uint a1]
                                  (world s)\<rparr>))) \<and>
   (no_wrap C \<and> 0 < pid \<and> pid < int (NR_TASKS s) \<and> \<not> slot_free (tasks s ! nat pid) \<and>
    slot_free (tasks (sched_yield E (killed E C (nat pid) s)) ! nat pid)
      \<longrightarrow> sys_kill E C pid s = Inr (sched_yield E (killed E C (nat pid) s)) \<and>
          sys_kill E C pid (sched_yield E (killed E C (nat pid) s)) =
            Inr (sched_yield E (killed E C (nat pid) s))) \<and>
   (\<forall>s1. sys_kill E C pid s = Inr s1 \<and> slot_free (tasks s1 ! nat pid)
      \<longrightarrow> sys_kill E C pid s1 = Inr s1)"
proof (intro conjI impI allI)
  assume "pid \<le> 0 \<or> int (NR_TASKS s) \<le> pid \<or> slot_free (tasks s ! nat pid)"
  then show "sys_kill E C pid s = Inr s" by (rule sys_kill_skip)
next
  fix r s'
  assume "switch_case C syscallno = Some SYS_kill"
    and "do_syscall E C syscallno a1 a2 a3 a4 a5 s = Inr (r, s')"
  then show "r = 0"
    by (auto simp: do_syscall_def split: sum.splits)
next
  let ?s1 = "s\<lparr>world := cprintf E (''Going to kill pid = %d'' @ [CHR 0x0A]) [uint a1] (world s)\<rparr>"
  assume sw: "switch_case C syscallno = Some SYS_kill" and nw: "no_wrap C"
  have "\<exists>s2. sys_kill E C (sint a1) ?s1 = Inr s2"
  proof (cases "0 < sint a1 \<and> sint a1 < int (NR_TASKS ?s1) \<and>
      \<not> slot_free (tasks ?s1 ! nat (sint a1))")
    case True
    then show ?thesis using sys_kill_eq_killed [OF nw, of "sint a1" ?s1 E] by blast
  next
    case False
    then have "sint a1 \<le> 0 \<or> int (NR_TASKS ?s1) \<le> sint a1 \<or>
        slot_free (tasks ?s1 ! nat (sint a1))"
      by auto
    then show ?thesis using sys_kill_skip [of "sint a1" ?s1 E C] by blast
  qed
  with sw show "\<exists>s'. do_syscall E C syscallno a1 a2 a3 a4 a5 s = Inr (0, s')"
    by (auto simp: do_syscall_def)
next
  let ?s1 = "s\<lparr>world := cprintf E (''Going to kill pid = %d'' @ [CHR 0x0A]) [uint a1] (world s)\<rparr>"
  assume sw: "switch_case C syscallno = Some SYS_kill"
    and "sint a1 \<le> 0 \<or> int (NR_TASKS s) \<le> sint a1 \<or> slot_free (tasks s ! nat (sint a1))"
  then have "sint a1 \<le> 0 \<or> int (NR_TASKS ?s1) \<le> sint a1 \<or> slot_free (tasks ?s1 ! nat (sint a1))"
    by (simp add: NR_TASKS_def)
  then have "sys_kill E C (sint a1) ?s1 = Inr ?s1" by (rule sys_kill_skip)
  with sw show "do_syscall E C syscallno a1 a2 a3 a4 a5 s = Inr (0, ?s1)"
    by (simp add: do_syscall_def)
next
  assume a: "no_wrap C \<and> 0 < pid \<and> pid < int (NR_TASKS s) \<and>
    \<not> slot_free (tasks s ! nat pid) \<and>
    slot_free (tasks (sched_yield E (killed E C (nat pid) s)) ! nat pid)"
  then show "sys_kill E C pid s = Inr (sched_yield E (killed E C (nat pid) s))"
    by (intro sys_kill_eq_killed) auto
next
  assume a: "no_wrap C \<and> 0 < pid \<and> pid < int (NR_TASKS s) \<and>
    \<not> slot_free (tasks s ! nat pid) \<and>
    slot_free (tasks (sched_yield E (killed E C (nat pid) s)) ! nat pid)"
  then show "sys_kill E C pid (sched_yield E (killed E C (nat pid) s)) =
      Inr (sched_yield E (killed E C (nat pid) s))"
    by (intro sys_kill_skip) simp
next
  fix s1
  assume "sys_kill E C pid s = Inr s1 \<and> slot_free (tasks s1 ! nat pid)"
  then show "sys_kill E C pid s1 = Inr s1" by (intro sys_kill_skip) simp
qed

text \<open>
  The theorem of C6 in the simulation: pid 0, the pid of a stopped slot, the kill call
  with argument 0, the kill call with argument 1, and task 1 killed twice.
\<close>

theorem sys_kill_noop_witness:
  "sys_kill sim_extern sim_config 0 full_state = Inr full_state \<and>
   sys_kill sim_extern sim_config 1 mixed_state = Inr mixed_state \<and>
   do_syscall sim_extern sim_config 5 0 0 0 0 0 full_state =
     Inr (0, full_state\<lparr>world := cprintf sim_extern (''Going to kill pid = %d'' @ [CHR 0x0A])
                                     [uint (0 :: word32)] (world full_state)\<rparr>) \<and>
   (\<exists>s'. do_syscall sim_extern sim_config 5 1 0 0 0 0 full_state = Inr (0, s')) \<and>
   sys_kill sim_extern sim_config 1 full_state =
     Inr (sched_yield sim_extern (killed sim_extern sim_config 1 full_state)) \<and>
   sys_kill sim_extern sim_config 1
       (sched_yield sim_extern (killed sim_extern sim_config 1 full_state)) =
     Inr (sched_yield sim_extern (killed sim_extern sim_config 1 full_state))"
proof -
  have h1: "(0::int) \<le> 0" by simp
  have h2: "slot_free (tasks mixed_state ! nat 1)"
    by (simp add: mixed_state_def slot_free_def live_task_def)
  have h3: "switch_case sim_config 5 = Some SYS_kill"
    by (simp add: switch_case_def sim_config_def sim_sysno_def case_labels_def)
  have h4: "sint (0 :: word32) \<le> 0" by simp
  have h5: "no_wrap sim_config \<and> (0::int) < 1 \<and> 1 < int (NR_TASKS full_state) \<and>
      \<not> slot_free (tasks full_state ! nat 1) \<and>
      slot_free (tasks (sched_yield sim_extern (killed sim_extern sim_config (nat 1) full_state))
                   ! nat 1)"
    using no_wrap_sim
    by (simp add: full_state_def NR_TASKS_def slot_free_def live_task_def killed_def
        sim_extern_def)
  from h1 sys_kill_noop [where pid = 0 and s = full_state and E = sim_extern and C = sim_config]
  have a: "sys_kill sim_extern sim_config 0 full_state = Inr full_state" by blast
  from h2 sys_kill_noop [where pid = 1 and s = mixed_state and E = sim_extern and C = sim_config]
  have b: "sys_kill sim_extern sim_config 1 mixed_state = Inr mixed_state" by blast
  from h3 h4 sys_kill_noop [where s = full_state and E = sim_extern and C = sim_config
      and syscallno = 5 and ?a1.0 = 0 and ?a2.0 = 0 and ?a3.0 = 0 and ?a4.0 = 0 and ?a5.0 = 0]
  have c: "do_syscall sim_extern sim_config 5 0 0 0 0 0 full_state =
     Inr (0, full_state\<lparr>world := cprintf sim_extern (''Going to kill pid = %d'' @ [CHR 0x0A])
                                     [uint (0 :: word32)] (world full_state)\<rparr>)"
    by blast
  from h3 no_wrap_sim sys_kill_noop [where s = full_state and E = sim_extern and C = sim_config
      and syscallno = 5 and ?a1.0 = 1 and ?a2.0 = 0 and ?a3.0 = 0 and ?a4.0 = 0 and ?a5.0 = 0]
  have c': "\<exists>s'. do_syscall sim_extern sim_config 5 1 0 0 0 0 full_state = Inr (0, s')"
    by blast
  from h5 sys_kill_noop [where pid = 1 and s = full_state and E = sim_extern and C = sim_config]
  have d: "sys_kill sim_extern sim_config 1 full_state =
     Inr (sched_yield sim_extern (killed sim_extern sim_config (nat 1) full_state)) \<and>
   sys_kill sim_extern sim_config 1
       (sched_yield sim_extern (killed sim_extern sim_config (nat 1) full_state)) =
     Inr (sched_yield sim_extern (killed sim_extern sim_config (nat 1) full_state))"
    by blast
  from a b c c' d show ?thesis by simp
qed

subsection \<open>Sleep\<close>

text \<open>
  C7. When the current task is RUNNING, sys_sleep sets its state to SLEEP and its
  countdown to the duration asked for, hands the state to the scheduler and returns 0.
  When there is no current task, or the current task is not RUNNING, sys_sleep calls
  panic: it does not return.
\<close>

theorem sys_sleep_running_or_panic:
  "(cur_task s = Some c \<and> c < NR_TASKS s \<and> state (tasks s ! c) = TASK_RUNNING \<longrightarrow>
      sys_sleep E time s =
        Inr (0, sched_yield E
                  (s\<lparr>tasks := (tasks s)[c := (tasks s ! c)\<lparr>state := TASK_SLEEP,
                                                           remind_ticks := time\<rparr>]\<rparr>))) \<and>
   (cur_task s = None \<or>
    (cur_task s = Some c \<and> c < NR_TASKS s \<and> state (tasks s ! c) \<noteq> TASK_RUNNING) \<longrightarrow>
      sys_sleep E time s = Inl (Panic (''Can't sleep the task'' @ [CHR 0x0A])))"
  by (auto simp: sys_sleep_def)

text \<open>
  The theorem of C7 in the simulation: the running task sleeps; without a current task,
  and with a current task that is RUNNABLE, sys_sleep panics.
\<close>

theorem sys_sleep_running_or_panic_witness:
  "sys_sleep sim_extern 7 full_state =
     Inr (0, sched_yield sim_extern
               (full_state\<lparr>tasks := (tasks full_state)
                    [0 := (tasks full_state ! 0)\<lparr>state := TASK_SLEEP, remind_ticks := 7\<rparr>]\<rparr>)) \<and>
   sys_sleep sim_extern 7 (full_state\<lparr>cur_task := None\<rparr>) =
     Inl (Panic (''Can't sleep the task'' @ [CHR 0x0A])) \<and>
   sys_sleep sim_extern 7 (full_state\<lparr>cur_task := Some 1\<rparr>) =
     Inl (Panic (''Can't sleep the task'' @ [CHR 0x0A]))"
proof -
  have h1: "cur_task full_state = Some 0 \<and> 0 < NR_TASKS full_state \<and>
      state (tasks full_state ! 0) = TASK_RUNNING"
    by (simp add: full_state_def NR_TASKS_def live_task_def)
  have h2: "cur_task (full_state\<lparr>cur_task := None\<rparr>) = None" by simp
  have h3: "cur_task (full_state\<lparr>cur_task := Some 1\<rparr>) = Some 1 \<and>
      1 < NR_TASKS (full_state\<lparr>cur_task := Some 1\<rparr>) \<and>
      state (tasks (full_state\<lparr>cur_task := Some 1\<rparr>) ! 1) \<noteq> TASK_RUNNING"
    by (simp add: full_state_def NR_TASKS_def live_task_def)
  from h1 sys_sleep_running_or_panic [where s = full_state and c = 0 and E = sim_extern
      and time = 7]
  have a: "sys_sleep sim_extern 7 full_state =
     Inr (0, sched_yield sim_extern
               (full_state\<lparr>tasks := (tasks full_state)
                    [0 := (tasks full_state ! 0)\<lparr>state := TASK_SLEEP, remind_ticks := 7\<rparr>]\<rparr>))"
    by blast
  from h2 sys_sleep_running_or_panic [where s = "full_state\<lparr>cur_task := None\<rparr>"
      and E = sim_extern and time = 7]
  have b: "sys_sleep sim_extern 7 (full_state\<lparr>cur_task := None\<rparr>) =
     Inl (Panic (''Can't sleep the task'' @ [CHR 0x0A]))"
    by blast
  from h3 sys_sleep_running_or_panic [where s = "full_state\<lparr>cur_task := Some 1\<rparr>"
      and c = 1 and E = sim_extern and time = 7]
  have c: "sys_sleep sim_extern 7 (full_state\<lparr>cur_task := Some 1\<rparr>) =
     Inl (Panic (''Can't sleep the task'' @ [CHR 0x0A]))"
    by blast
  from a b c show ?thesis by simp
qed

subsection \<open>The dispatcher\<close>

text \<open>
  C8. For a call number that is the number of no case of the switch, do_syscall returns -1
  and the state it was given: nothing is printed and nothing changes.
\<close>

theorem do_syscall_unrecognized:
  assumes "syscallno \<notin> sysno C ` set case_labels"
  shows "do_syscall E C syscallno a1 a2 a3 a4 a5 s = Inr (- 1, s)"
  using assms by (simp add: do_syscall_def switch_case_None [symmetric])

text \<open>The theorem of C8 in the simulation, whose calls are numbered 0 to 11.\<close>

theorem do_syscall_unrecognized_witness:
  "do_syscall sim_extern sim_config 12 1 2 3 4 5 full_state = Inr (- 1, full_state)"
proof -
  have "(12::word32) \<notin> sysno sim_config ` set case_labels"
    by (simp add: sim_config_def sim_sysno_def case_labels_def)
  then show ?thesis by (rule do_syscall_unrecognized)
qed

subsection \<open>Boot, then fork\<close>

text \<open>
  What a task_init that returns leaves, and what a fork that then succeeds leaves.
\<close>

lemma fork_after_boot:
  assumes "cur_task s = None" and "task_init E C s = Inr s1"
  shows "cur_task s1 = Some 0 \<and> task_id (tasks s1 ! 0) = 0 \<and>
         state (tasks s1 ! 0) = TASK_RUNNING \<and> parent_id (tasks s1 ! 0) = - 1 \<and>
         (\<forall>r s2. sys_fork E C s1 = Inr (r, s2) \<and> r \<noteq> - 1 \<longrightarrow>
            r = 1 \<and> task_id (tasks s2 ! 1) = 1 \<and> state (tasks s2 ! 1) = TASK_RUNNABLE \<and>
            parent_id (tasks s2 ! 1) = 0 \<and> reg_eax (tf_regs (tf (tasks s2 ! 1))) = 0 \<and>
            cur_task s2 = Some 0 \<and> task_id (tasks s2 ! 0) = 0 \<and>
            state (tasks s2 ! 0) = TASK_RUNNING)"
proof -
  from task_init_success [OF assms]
  have n: "0 < NR_TASKS s" and c1: "cur_task s1 = Some 0"
    and len: "length (tasks s1) = length (tasks s)"
    and id0: "task_id (tasks s1 ! 0) = 0" and st0: "state (tasks s1 ! 0) = TASK_RUNNING"
    and par0: "parent_id (tasks s1 ! 0) = - 1"
    and rest: "\<forall>j. 0 < j \<and> j < NR_TASKS s \<longrightarrow> tasks s1 ! j = free_task"
    by simp_all
  have fork: "r = 1 \<and> task_id (tasks s2 ! 1) = 1 \<and> state (tasks s2 ! 1) = TASK_RUNNABLE \<and>
            parent_id (tasks s2 ! 1) = 0 \<and> reg_eax (tf_regs (tf (tasks s2 ! 1))) = 0 \<and>
            cur_task s2 = Some 0 \<and> task_id (tasks s2 ! 0) = 0 \<and>
            state (tasks s2 ! 0) = TASK_RUNNING"
    if fk: "sys_fork E C s1 = Inr (r, s2)" and r: "r \<noteq> - 1" for r s2
  proof -
    let ?i = "find_free (tasks s1) 0"
    let ?tab1 = "(tasks s1)[?i := created C s1 ?i (fst (setupkvm E (world s1)))]"
    from sys_fork_success [OF c1 fk r]
    have i0: "0 < ?i" and i: "?i < NR_TASKS s1" and ri: "r = int ?i"
      and c2: "cur_task s2 = Some 0"
      and ts2: "tasks s2 = ?tab1[?i := (?tab1 ! ?i)
          \<lparr>tf := (tf (?tab1 ! 0))\<lparr>tf_regs := (tf_regs (tf (?tab1 ! 0)))\<lparr>reg_eax := 0\<rparr>\<rparr>\<rparr>]"
      by simp_all
    have il: "?i < length (tasks s1)" using i by (simp add: NR_TASKS_def)
    have one: "?i = 1"
    proof (rule ccontr)
      assume "?i \<noteq> 1"
      with i0 have gt: "1 < ?i" by simp
      then have "\<not> slot_free (tasks s1 ! 1)"
        using find_free_least [of 0 1 "tasks s1"] by simp
      moreover have "tasks s1 ! 1 = free_task"
        using rest gt il len by (simp add: NR_TASKS_def)
      ultimately show False by (simp add: slot_free_def free_task_def)
    qed
    have new: "tasks s2 ! 1 = (created C s1 1 (fst (setupkvm E (world s1))))
          \<lparr>tf := (tf (tasks s1 ! 0))\<lparr>tf_regs := (tf_regs (tf (tasks s1 ! 0)))\<lparr>reg_eax := 0\<rparr>\<rparr>\<rparr>"
      using il one by (simp add: ts2)
    have old: "tasks s2 ! 0 = tasks s1 ! 0" using one by (simp add: ts2)
    have a: "task_id (tasks s2 ! 1) = 1 \<and> state (tasks s2 ! 1) = TASK_RUNNABLE \<and>
        parent_id (tasks s2 ! 1) = 0 \<and> reg_eax (tf_regs (tf (tasks s2 ! 1))) = 0"
      unfolding new using c1 id0 by (simp add: created_def)
    have b: "task_id (tasks s2 ! 0) = 0 \<and> state (tasks s2 ! 0) = TASK_RUNNING"
      unfolding old using id0 st0 by simp
    show ?thesis
      using ri one c2 a b by simp
  qed
  from c1 id0 st0 par0 fork show ?thesis by blast
qed

text \<open>
  C9, as amended. When task_init is entered with no current task, as at boot, the table
  has at least two slots, USTACKTOP is at least a page below the end of the address
  space, and the page directory and the user stack pages of the first task are allocated,
  task_init returns, and the current task is slot 0, with task_id 0, state RUNNING and
  parent_id -1. When then the page directory and the user stack pages of a second task
  are allocated and the copy finds every page of its stack, sys_fork returns 1, as the
  fork case of the dispatcher does, slot 1 has task_id 1, state RUNNABLE, parent_id 0
  and a saved eax of 0, and task 0 is still the current task, RUNNING.
\<close>

theorem boot_then_fork:
  assumes "cur_task s = None" and "2 \<le> NR_TASKS s" and "no_wrap C"
    and "can_create E C (tss_gdt_setup E (world s))"
  shows "\<exists>s1. task_init E C s = Inr s1 \<and>
           cur_task s1 = Some 0 \<and> task_id (tasks s1 ! 0) = 0 \<and>
           state (tasks s1 ! 0) = TASK_RUNNING \<and> parent_id (tasks s1 ! 0) = - 1 \<and>
           (can_create E C (world s1) \<and> can_copy E C (world s1) \<longrightarrow>
              (\<exists>s2. sys_fork E C s1 = Inr (1, s2) \<and>
                 (\<forall>a1 a2 a3 a4 a5.
                     do_syscall E C (sysno C SYS_fork) a1 a2 a3 a4 a5 s1 = Inr (1, s2)) \<and>
                 task_id (tasks s2 ! 1) = 1 \<and> state (tasks s2 ! 1) = TASK_RUNNABLE \<and>
                 parent_id (tasks s2 ! 1) = 0 \<and> reg_eax (tf_regs (tf (tasks s2 ! 1))) = 0 \<and>
                 cur_task s2 = Some 0 \<and> task_id (tasks s2 ! 0) = 0 \<and>
                 state (tasks s2 ! 0) = TASK_RUNNING))"
proof -
  have n: "0 < NR_TASKS s" using assms(2) by simp
  from task_init_returns [OF assms(1) n assms(3,4)]
  obtain s1 where ti: "task_init E C s = Inr s1" by blast
  from task_init_success [OF assms(1) ti]
  have c1: "cur_task s1 = Some 0" and len: "length (tasks s1) = length (tasks s)"
    and st0: "state (tasks s1 ! 0) = TASK_RUNNING"
    and rest: "\<forall>j. 0 < j \<and> j < NR_TASKS s \<longrightarrow> tasks s1 ! j = free_task"
    by simp_all
  note facts = fork_after_boot [OF assms(1) ti]
  have n1: "1 < NR_TASKS s1" using assms(2) len by (simp add: NR_TASKS_def)
  have t1: "tasks s1 ! 1 = free_task" using rest assms(2) by simp
  have l1: "1 < length (tasks s1)" using n1 by (simp add: NR_TASKS_def)
  then have ne: "tasks s1 \<noteq> []" by auto
  have ff: "find_free (tasks s1) 0 = 1"
    using l1 ne st0 t1
    by (subst find_free.simps, subst find_free.simps) (simp add: free_task_def)
  have fork: "\<exists>s2. sys_fork E C s1 = Inr (1, s2) \<and>
                 (\<forall>a1 a2 a3 a4 a5.
                     do_syscall E C (sysno C SYS_fork) a1 a2 a3 a4 a5 s1 = Inr (1, s2)) \<and>
                 task_id (tasks s2 ! 1) = 1 \<and> state (tasks s2 ! 1) = TASK_RUNNABLE \<and>
                 parent_id (tasks s2 ! 1) = 0 \<and> reg_eax (tf_regs (tf (tasks s2 ! 1))) = 0 \<and>
                 cur_task s2 = Some 0 \<and> task_id (tasks s2 ! 0) = 0 \<and>
                 state (tasks s2 ! 0) = TASK_RUNNING"
    if cc: "can_create E C (world s1)" and cp: "can_copy E C (world s1)"
  proof -
    have c: "0 < NR_TASKS s1" using n1 by simp
    from sys_fork_returns [OF assms(3) c1 c ff _ n1 cc cp]
    obtain s2 where fk: "sys_fork E C s1 = Inr (1, s2)" by auto
    have disp: "do_syscall E C (sysno C SYS_fork) a1 a2 a3 a4 a5 s1 = Inr (1, s2)"
      for a1 a2 a3 a4 a5
      using fk by (simp add: do_syscall_def switch_case_fork)
    have "(1::int) \<noteq> - 1" by simp
    with facts fk have "task_id (tasks s2 ! 1) = 1 \<and> state (tasks s2 ! 1) = TASK_RUNNABLE \<and>
        parent_id (tasks s2 ! 1) = 0 \<and> reg_eax (tf_regs (tf (tasks s2 ! 1))) = 0 \<and>
        cur_task s2 = Some 0 \<and> task_id (tasks s2 ! 0) = 0 \<and>
        state (tasks s2 ! 0) = TASK_RUNNING"
      by blast
    with fk disp show ?thesis by blast
  qed
  from ti facts fork show ?thesis by blast
qed

text \<open>
  The theorem of C9 in the simulation: boot with a table of three slots and eight frames,
  then the fork call, number 0, through the dispatcher.
\<close>

theorem boot_then_fork_witness:
  "task_init sim_extern sim_config (boot_state 3 (sim_world 8)) =
     Inr (projr (task_init sim_extern sim_config (boot_state 3 (sim_world 8)))) \<and>
   cur_task (projr (task_init sim_extern sim_config (boot_state 3 (sim_world 8)))) = Some 0 \<and>
   state (tasks (projr (task_init sim_extern sim_config (boot_state 3 (sim_world 8)))) ! 0)
     = TASK_RUNNING \<and>
   parent_id (tasks (projr (task_init sim_extern sim_config (boot_state 3 (sim_world 8)))) ! 0)
     = - 1 \<and>
   do_syscall sim_extern sim_config 0 0 0 0 0 0
       (projr (task_init sim_extern sim_config (boot_state 3 (sim_world 8)))) =
     Inr (1, snd (projr (do_syscall sim_extern sim_config 0 0 0 0 0 0
       (projr (task_init sim_extern sim_config (boot_state 3 (sim_world 8))))))) \<and>
   state (tasks (snd (projr (do_syscall sim_extern sim_config 0 0 0 0 0 0
       (projr (task_init sim_extern sim_config (boot_state 3 (sim_world 8))))))) ! 1)
     = TASK_RUNNABLE \<and>
   parent_id (tasks (snd (projr (do_syscall sim_extern sim_config 0 0 0 0 0 0
       (projr (task_init sim_extern sim_config (boot_state 3 (sim_world 8))))))) ! 1)
     = 0 \<and>
   reg_eax (tf_regs (tf (tasks (snd (projr (do_syscall sim_extern sim_config 0 0 0 0 0 0
       (projr (task_init sim_extern sim_config (boot_state 3 (sim_world 8))))))) ! 1)))
     = 0"
proof -
  let ?s0 = "boot_state 3 (sim_world 8)"
  let ?s1 = "projr (task_init sim_extern sim_config ?s0)"
  have h1: "cur_task ?s0 = None" by (simp add: boot_state_def)
  have h2: "2 \<le> NR_TASKS ?s0" by (simp add: boot_state_def NR_TASKS_def)
  have h4: "can_create sim_extern sim_config (tss_gdt_setup sim_extern (world ?s0))"
    by (simp add: can_create_def boot_state_def sim_run)
  from boot_then_fork [OF h1 h2 no_wrap_sim h4]
  obtain s1 where ti: "task_init sim_extern sim_config ?s0 = Inr s1"
    and boot: "cur_task s1 = Some 0 \<and> state (tasks s1 ! 0) = TASK_RUNNING \<and>
        parent_id (tasks s1 ! 0) = - 1"
    and fork: "can_create sim_extern sim_config (world s1) \<and>
        can_copy sim_extern sim_config (world s1) \<longrightarrow>
        (\<exists>s2. (\<forall>a1 a2 a3 a4 a5.
                  do_syscall sim_extern sim_config (sysno sim_config SYS_fork) a1 a2 a3 a4 a5 s1
                    = Inr (1, s2)) \<and>
               state (tasks s2 ! 1) = TASK_RUNNABLE \<and> parent_id (tasks s2 ! 1) = 0 \<and>
               reg_eax (tf_regs (tf (tasks s2 ! 1))) = 0)"
    by blast
  have s1: "?s1 = s1" by (simp add: ti)
  have w1: "world ?s1 =
      \<lparr>frames = 5,
       mapped = [((0xF0008000, 0xEEBFD000), 0xF0006000), ((0xF0008000, 0xEEBFC000), 0xF0007000)],
       calls = calls (world ?s1)\<rparr>"
    by (simp add: task_init_def task_create_def run_defs boot_state_def free_task_def
        numeral_3_eq_3 find_free.simps setup_ustack.simps init_tasks.simps setup_user_vm_def)
  have cc: "can_create sim_extern sim_config (world ?s1)"
    by (subst w1, subst w1) (simp add: can_create_def sim_run)
  have cp: "can_copy sim_extern sim_config (world ?s1)"
    by (subst w1, subst w1, subst w1)
      (simp add: can_copy_def create_world_def sim_run)
  from fork cc cp s1 obtain s2
    where d: "do_syscall sim_extern sim_config (sysno sim_config SYS_fork) 0 0 0 0 0 s1
                = Inr (1, s2)"
      and f: "state (tasks s2 ! 1) = TASK_RUNNABLE \<and> parent_id (tasks s2 ! 1) = 0 \<and>
               reg_eax (tf_regs (tf (tasks s2 ! 1))) = 0"
    by auto
  have no: "sysno sim_config SYS_fork = 0" by (simp add: sim_config_def sim_sysno_def)
  have d': "do_syscall sim_extern sim_config 0 0 0 0 0 0 s1 = Inr (1, s2)"
    using d no by simp
  show ?thesis
    using ti boot f by (simp add: d')
qed

text \<open>
  C9 as stated fails: with a table of three slots and three frames, task_init completes,
  the bootstrap task having taken all three; the fork that follows finds no frame for
  the page directory of task 1 and calls panic.
\<close>

theorem boot_then_fork_counterexample:
  "task_init sim_extern sim_config (boot_state 3 (sim_world 3)) =
     Inr (projr (task_init sim_extern sim_config (boot_state 3 (sim_world 3)))) \<and>
   cur_task (projr (task_init sim_extern sim_config (boot_state 3 (sim_world 3)))) = Some 0 \<and>
   sys_fork sim_extern sim_config
       (projr (task_init sim_extern sim_config (boot_state 3 (sim_world 3)))) =
     Inl (Panic (''Not enough memory for per process page directory!'' @ [CHR 0x0A]))"
  by (simp add: task_init_def sys_fork_def task_create_def run_defs boot_state_def
      free_task_def numeral_3_eq_3 find_free.simps setup_ustack.simps init_tasks.simps
      setup_user_vm_def)

subsection \<open>The initial stack pointer\<close>

text \<open>
  C10. After a successful task_create the saved user stack pointer of the new task is
  USTACKTOP - PGSIZE, which is one page below USTACKTOP whenever USTACKTOP is at least a
  page, while a page has been allocated and inserted at every address of the loop: the
  addresses from USTACKTOP - USR_STACK_SIZE up to USTACKTOP, a page apart. (A task_create
  whose counter wraps around does not succeed: its loop ends only on a failed
  allocation.)
\<close>

theorem task_create_stack_pointer:
  assumes "task_create E C s = Inr (r, s')" and "r \<noteq> - 1"
  shows "0 \<le> r \<and> nat r < NR_TASKS s' \<and>
         tf_esp (tf (tasks s' ! nat r)) = USTACKTOP C - of_nat PGSIZE \<and>
         (PGSIZE \<le> ustack_top C \<longrightarrow>
            unat (tf_esp (tf (tasks s' ! nat r))) = ustack_top C - PGSIZE) \<and>
         map_pages E (pgdir (tasks s' ! nat r)) (stack_vas C) (after_setupkvm E (world s))
           = (True, world s') \<and>
         set (stack_vas C) =
           {va. ustack_base C \<le> va \<and> va < ustack_top C \<and> PGSIZE dvd (va - ustack_base C)}"
proof -
  let ?i = "find_free (tasks s) 0"
  let ?pg = "fst (setupkvm E (world s))"
  from task_create_success [OF assms]
  have i: "?i < NR_TASKS s" and r: "r = int ?i"
    and lp: "setup_ustack E ?pg (USTACKTOP C - USR_STACK_SIZE C) (USTACKTOP C)
               (after_setupkvm E (world s)) = Some (True, world s')"
    and s': "s' = s\<lparr>tasks := (tasks s)[?i := created C s ?i ?pg], world := world s'\<rparr>"
    by simp_all
  have mp: "map_pages E ?pg (stack_vas C) (after_setupkvm E (world s)) = (True, world s')"
    using lp by (rule setup_ustack_success)
  have len: "?i < length (tasks s)" using i by (simp add: NR_TASKS_def)
  have t: "tasks s' = (tasks s)[?i := created C s ?i ?pg]"
    by (subst s') simp
  have new: "tasks s' ! nat r = created C s ?i ?pg"
    using len r by (simp add: t)
  have esp: "tf_esp (tf (tasks s' ! nat r)) = USTACKTOP C - of_nat PGSIZE"
    by (simp add: new created_def user_tf_def)
  have below: "PGSIZE \<le> ustack_top C \<longrightarrow>
      unat (tf_esp (tf (tasks s' ! nat r))) = ustack_top C - PGSIZE"
  proof
    assume le: "PGSIZE \<le> ustack_top C"
    have "unat (of_nat PGSIZE :: word32) = PGSIZE" by (simp add: PGSIZE_def)
    moreover have "(of_nat PGSIZE :: word32) \<le> USTACKTOP C"
      using le by (simp add: word_le_nat_alt ustack_top_def PGSIZE_def)
    ultimately show "unat (tf_esp (tf (tasks s' ! nat r))) = ustack_top C - PGSIZE"
      by (simp add: esp unat_sub ustack_top_def)
  qed
  show ?thesis
    using r len esp below mp new
    by (simp add: t NR_TASKS_def stack_vas_def set_va_range created_def)
qed

text \<open>
  The theorem of C10 in the simulation: the new task's stack pointer is 0xEEBFD000, the
  address of the upper of the two pages mapped.
\<close>

theorem task_create_stack_pointer_witness:
  "tf_esp (tf (tasks (snd (projr (task_create sim_extern sim_config mixed_state))) ! 1))
     = 0xEEBFD000 \<and>
   set (stack_vas sim_config) = {0xEEBFC000, 0xEEBFD000}"
proof -
  have tc: "task_create sim_extern sim_config mixed_state =
      Inr (1, snd (projr (task_create sim_extern sim_config mixed_state)))"
    by (simp add: task_create_def run_defs find_free.simps setup_ustack.simps)
  have "(1::int) \<noteq> - 1" by simp
  from task_create_stack_pointer [OF tc this]
  have "tf_esp (tf (tasks (snd (projr (task_create sim_extern sim_config mixed_state))) ! nat 1))
     = USTACKTOP sim_config - of_nat PGSIZE"
    by blast
  then have "tf_esp (tf (tasks (snd (projr (task_create sim_extern sim_config mixed_state))) ! 1))
     = 0xEEBFD000"
    by (simp add: sim_config_def PGSIZE_def)
  moreover have "set (stack_vas sim_config) = {0xEEBFC000, 0xEEBFD000}"
    by (simp add: stack_vas_sim)
  ultimately show ?thesis by simp
qed

end
